theory Spec2Isabelle
  imports Main
begin

section \<open>Version comparison (gui.py, \<open>YSTApplication._compare_versions\<close>)\<close>

text \<open>
  Python strings are modelled as \<^typ>\<open>string\<close>; the version strings the update check
  handles are ASCII text. \<open>str.split('.')\<close> with an explicit separator never returns the
  empty list: the empty string splits into one empty component.
\<close>

fun split_acc :: "char \<Rightarrow> string \<Rightarrow> string \<Rightarrow> string list" where
  "split_acc sep acc [] = [rev acc]"
| "split_acc sep acc (c # cs) =
     (if c = sep then rev acc # split_acc sep [] cs else split_acc sep (c # acc) cs)"

definition split_str :: "char \<Rightarrow> string \<Rightarrow> string list" where
  "split_str sep s = split_acc sep [] s"

text \<open>
  \<open>int(x)\<close> on a string, base 10, as CPython parses ASCII text: white space
  (tab, line feed, vertical tab, form feed, carriage return, space) is skipped on both
  sides, one sign may come first, then at least one digit; a single underscore may
  stand between two digits. Anything else raises \<open>ValueError\<close>, which is \<open>None\<close> here.
  A text of more than \<open>max_str_digits\<close> digits raises \<open>ValueError\<close> too (the default
  limit of CPython 3.11 and later).
\<close>

definition py_isspace :: "char \<Rightarrow> bool" where
  "py_isspace c = (c \<in> set [CHR 0x09, CHR 0x0A, CHR 0x0B, CHR 0x0C, CHR 0x0D, CHR 0x20])"

definition py_strip :: "string \<Rightarrow> string" where
  "py_strip s = rev (dropWhile py_isspace (rev (dropWhile py_isspace s)))"

definition digit_val :: "char \<Rightarrow> nat option" where
  "digit_val c =
     (let n = (of_char c :: nat) in if 48 \<le> n \<and> n \<le> 57 then Some (n - 48) else None)"

fun parse_digits :: "nat \<Rightarrow> string \<Rightarrow> nat option" where
  "parse_digits acc [] = Some acc"
| "parse_digits acc (c # cs) =
     (if c = CHR ''_'' then
        (case cs of
           [] \<Rightarrow> None
         | d # ds \<Rightarrow>
             (case digit_val d of
                None \<Rightarrow> None
              | Some v \<Rightarrow> parse_digits (acc * 10 + v) ds))
      else
        (case digit_val c of
           None \<Rightarrow> None
         | Some v \<Rightarrow> parse_digits (acc * 10 + v) cs))"

definition max_str_digits :: nat where
  "max_str_digits = 4300"

definition py_int :: "string \<Rightarrow> int option" where
  "py_int s =
     (let t = py_strip s;
          neg = (case t of c # _ \<Rightarrow> c = CHR ''-'' | [] \<Rightarrow> False);
          body = (case t of c # r \<Rightarrow> if c = CHR ''-'' \<or> c = CHR ''+'' then r else t | [] \<Rightarrow> [])
      in case body of
           [] \<Rightarrow> None
         | c # cs \<Rightarrow>
             (case digit_val c of
                None \<Rightarrow> None
              | Some v \<Rightarrow>
                  (case parse_digits v cs of
                     None \<Rightarrow> None
                   | Some n \<Rightarrow>
                       if max_str_digits < length (filter (\<lambda>d. d \<noteq> CHR ''_'') body)
                       then None
                       else Some (if neg then - int n else int n))))"

text \<open>
  \<open>[int(x) for x in version.split('.')]\<close>: the comprehension raises at the first
  component that does not parse.
\<close>

fun parse_parts :: "string list \<Rightarrow> int list option" where
  "parse_parts [] = Some []"
| "parse_parts (x # xs) =
     (case py_int x of
        None \<Rightarrow> None
      | Some v \<Rightarrow> (case parse_parts xs of None \<Rightarrow> None | Some vs \<Rightarrow> Some (v # vs)))"

text \<open>
  The loop \<open>for i in range(max_len)\<close>. Both lists have been extended to \<open>max_len\<close>
  before it runs, so every index read is in range.
\<close>

function compare_loop :: "nat \<Rightarrow> nat \<Rightarrow> int list \<Rightarrow> int list \<Rightarrow> int" where
  "compare_loop i max_len v1 v2 =
     (if i < max_len then
        (if v1 ! i > v2 ! i then 1
         else if v1 ! i < v2 ! i then - 1
         else compare_loop (i + 1) max_len v1 v2)
      else 0)"
  by pat_completeness auto
termination
  by (relation "measure (\<lambda>(i, max_len, v1, v2). max_len - i)") auto

declare compare_loop.simps [simp del]

text \<open>
  The body of \<open>_compare_versions\<close>. The bare \<open>except\<close> turns every exception of the
  \<open>try\<close> block into the result 0; the only statements of the block that can raise are
  the two comprehensions.
\<close>

definition compare_versions :: "string \<Rightarrow> string \<Rightarrow> int" where
  "compare_versions version1 version2 =
     (case parse_parts (split_str CHR ''.'' version1) of
        None \<Rightarrow> 0
      | Some v1_parts \<Rightarrow>
          (case parse_parts (split_str CHR ''.'' version2) of
             None \<Rightarrow> 0
           | Some v2_parts \<Rightarrow>
               (let max_len = max (length v1_parts) (length v2_parts);
                    v1 = v1_parts @ replicate (max_len - length v1_parts) 0;
                    v2 = v2_parts @ replicate (max_len - length v2_parts) 0
                in compare_loop 0 max_len v1 v2)))"

subsection \<open>The comparison as the specification words it\<close>

text \<open>
  Split both strings on the dot, parse each component as an integer, right-pad the
  shorter sequence with zeros, compare component-wise from the left; the first unequal
  pair decides, and a parse failure on either side gives 0.
\<close>

definition pad_zeros :: "nat \<Rightarrow> int list \<Rightarrow> int list" where
  "pad_zeros n xs = xs @ replicate (n - length xs) 0"

definition decide :: "(int \<times> int) option \<Rightarrow> int" where
  "decide p = (case p of None \<Rightarrow> 0 | Some (x, y) \<Rightarrow> if y < x then 1 else - 1)"

definition compare_padded :: "int list \<Rightarrow> int list \<Rightarrow> int" where
  "compare_padded xs ys =
     (let n = max (length xs) (length ys)
      in decide (find (\<lambda>(x, y). x \<noteq> y) (zip (pad_zeros n xs) (pad_zeros n ys))))"

definition spec_compare :: "string \<Rightarrow> string \<Rightarrow> int" where
  "spec_compare a b =
     (case (those (map py_int (split_str CHR ''.'' a)),
            those (map py_int (split_str CHR ''.'' b))) of
        (Some xs, Some ys) \<Rightarrow> compare_padded xs ys
      | _ \<Rightarrow> 0)"

section \<open>Exceptions, effects and traces\<close>

text \<open>
  An exception of a collaborator is a value of \<open>exn\<close>. The first three constructors
  are the classes of \<open>requests.exceptions\<close> that the update check tells apart
  (\<open>ConnectTimeout\<close> derives from both \<open>ConnectionError\<close> and \<open>Timeout\<close>); every
  other instance of \<open>Exception\<close> is \<open>OtherException\<close> with its message.

  A routine that calls collaborators is a function on a state, the events it has
  produced so far and the outside world \<open>'w\<close>, and returns either the exception that
  leaves it or its value. Each collaborator takes the world and returns it changed, so
  two calls with the same arguments may answer differently.
\<close>

datatype exn = Timeout | ConnectTimeout | ConnectionError | OtherException string

type_synonym ('ev, 'w) st = "'ev list \<times> 'w"

type_synonym ('ev, 'w, 'a) act = "('ev, 'w) st \<Rightarrow> (exn + 'a) \<times> ('ev, 'w) st"

definition return_x :: "'a \<Rightarrow> ('ev, 'w, 'a) act" where
  "return_x a s = (Inr a, s)"

definition bind_x :: "('ev, 'w, 'a) act \<Rightarrow> ('a \<Rightarrow> ('ev, 'w, 'b) act) \<Rightarrow> ('ev, 'w, 'b) act" where
  "bind_x m f s = (case m s of (Inl e, s') \<Rightarrow> (Inl e, s') | (Inr a, s') \<Rightarrow> f a s')"

definition try_except :: "('ev, 'w, 'a) act \<Rightarrow> (exn \<Rightarrow> ('ev, 'w, 'a) act) \<Rightarrow> ('ev, 'w, 'a) act" where
  "try_except m h s = (case m s of (Inl e, s') \<Rightarrow> h e s' | (Inr a, s') \<Rightarrow> (Inr a, s'))"

definition emit :: "'ev \<Rightarrow> ('ev, 'w, unit) act" where
  "emit ev s = (Inr (), (fst s @ [ev], snd s))"

definition call :: "'ev \<Rightarrow> ('w \<Rightarrow> (exn + 'a) \<times> 'w) \<Rightarrow> ('ev, 'w, 'a) act" where
  "call ev f s = (case f (snd s) of (r, w') \<Rightarrow> (r, (fst s @ [ev], w')))"

definition call_quiet :: "('w \<Rightarrow> (exn + 'a) \<times> 'w) \<Rightarrow> ('ev, 'w, 'a) act" where
  "call_quiet f s = (case f (snd s) of (r, w') \<Rightarrow> (r, (fst s, w')))"

text \<open>\<open>adds m P\<close>: whatever \<open>m\<close> does, it only appends events, and each satisfies \<open>P\<close>.\<close>

definition adds :: "('ev, 'w, 'a) act \<Rightarrow> ('ev \<Rightarrow> bool) \<Rightarrow> bool" where
  "adds m P = (\<forall>s. \<exists>new. fst (snd (m s)) = fst s @ new \<and> list_all P new)"

section \<open>The decrypt worker (gui.py, \<open>YSTApplication.process_decrypt_task\<close>)\<close>

text \<open>
  The dictionary the detector returns. Only \<open>status\<close>, \<open>status_code\<close> and \<open>file_type\<close>
  are read by the code modelled here.
\<close>

record detection =
  file_path :: string
  status :: string
  status_code :: int
  file_type :: "string option"

text \<open>
  The messages the worker hands to the interface with \<open>self.after(0, ...)\<close>, one
  constructor for each call, in the order of gui.py lines 457, 478, 487, 514, 538 and
  553. The worker only schedules the callback: the event loop runs it later, on the
  interface's thread, and the text is formatted then, from the variables the callback
  reads at that moment. The callback of line 553 reads the handler's variable \<open>e\<close>
  (see \<open>run_callback\<close>); the exception is therefore no part of the scheduled report.
\<close>

datatype report =
    Skipped string string
  | Decrypted string string
  | Verify_passed
  | Verify_warned
  | Decrypt_failed string
  | Task_error string

text \<open>
  The entries written through \<open>get_logger_manager()\<close>, in the order of gui.py lines
  465, 502, 506, 528, 532, 546 and 561; the two optional fields are \<open>file_size\<close> and
  \<open>file_type\<close>.
\<close>

datatype log_entry =
    Log_skip string
  | Log_decrypt_verified string "int option" "string option"
  | Log_verify_passed string
  | Log_decrypt_partial string "int option" "string option"
  | Log_verify_warned string
  | Log_decrypt_failed string
  | Log_exception string exn

text \<open>
  What a worker does that can be seen from outside: a call of the detector, a call of
  the driver (\<open>process_encrypted_file\<close>, with the program path), a message for the
  interface, an entry handed to the log manager, and a warning of \<open>self.logger\<close>. The
  last two record the handler's variable: \<open>except Exception as e\<close> binds \<open>e\<close> when
  the clause is entered, and Python unbinds it when the clause ends.
\<close>

datatype event =
    Classify string
  | Driver string "string option"
  | Post report
  | Log log_entry
  | Warn
  | Bind_e exn
  | Unbind_e

text \<open>
  The collaborators of the worker; none of them is among the source files, so each is
  a parameter and may answer with a value or raise. \<open>get_wps_path\<close> is
  \<open>config_manager.get_settings().get('wps_path')\<close>, \<open>getsize\<close> is \<open>os.path.getsize\<close>,
  \<open>get_logger_manager\<close> is the import of the log manager and the call that fetches
  it, \<open>log_write\<close> is one of its two methods. \<open>self.after\<close> and
  \<open>self.logger.warning\<close> are taken to return.
\<close>

record 'w collaborators =
  get_detection_result :: "string \<Rightarrow> 'w \<Rightarrow> (exn + detection) \<times> 'w"
  get_wps_path :: "'w \<Rightarrow> (exn + string option) \<times> 'w"
  process_encrypted_file :: "string \<Rightarrow> string option \<Rightarrow> 'w \<Rightarrow> (exn + string option) \<times> 'w"
  getsize :: "string \<Rightarrow> 'w \<Rightarrow> (exn + int) \<times> 'w"
  get_logger_manager :: "'w \<Rightarrow> (exn + unit) \<times> 'w"
  log_write :: "log_entry \<Rightarrow> 'w \<Rightarrow> (exn + unit) \<times> 'w"

definition write_log :: "'w collaborators \<Rightarrow> log_entry \<Rightarrow> (event, 'w, unit) act" where
  "write_log env entry = call (Log entry) (log_write env entry)"

text \<open>
  \<open>from .logger import get_logger_manager\<close> and \<open>logger_manager = get_logger_manager()\<close>,
  the first two statements of every logging block.
\<close>

definition with_logger :: "'w collaborators \<Rightarrow> (event, 'w, unit) act \<Rightarrow> (event, 'w, unit) act" where
  "with_logger env m = bind_x (call_quiet (get_logger_manager env)) (\<lambda>_. m)"

text \<open>\<open>try: ... except Exception as e: self.logger.warning(...)\<close> around the logging.\<close>

definition log_guarded :: "(event, 'w, unit) act \<Rightarrow> (event, 'w, unit) act" where
  "log_guarded m = try_except m (\<lambda>e. emit Warn)"

text \<open>The inner \<open>try: file_size = os.path.getsize(file_path)  except: pass\<close>.\<close>

definition file_size_of :: "'w collaborators \<Rightarrow> string \<Rightarrow> (event, 'w, int option) act" where
  "file_size_of env path =
     try_except (bind_x (call_quiet (getsize env path)) (\<lambda>n. return_x (Some n)))
       (\<lambda>e. return_x None)"

definition skip_branch :: "'w collaborators \<Rightarrow> string \<Rightarrow> detection \<Rightarrow> (event, 'w, unit) act" where
  "skip_branch env path result =
     bind_x (emit (Post (Skipped path (status result)))) (\<lambda>_.
     log_guarded (with_logger env (write_log env (Log_skip path))))"

definition verified_branch ::
  "'w collaborators \<Rightarrow> string \<Rightarrow> detection \<Rightarrow> string \<Rightarrow> (event, 'w, unit) act" where
  "verified_branch env path result decrypted_path =
     bind_x (emit (Post Verify_passed)) (\<lambda>_.
     log_guarded (with_logger env
       (bind_x (file_size_of env path) (\<lambda>file_size.
        bind_x (write_log env (Log_decrypt_verified path file_size (file_type result))) (\<lambda>_.
        write_log env (Log_verify_passed decrypted_path))))))"

definition unverified_branch ::
  "'w collaborators \<Rightarrow> string \<Rightarrow> detection \<Rightarrow> string \<Rightarrow> (event, 'w, unit) act" where
  "unverified_branch env path result decrypted_path =
     bind_x (emit (Post Verify_warned)) (\<lambda>_.
     log_guarded (with_logger env
       (bind_x (file_size_of env path) (\<lambda>file_size.
        bind_x (write_log env (Log_decrypt_partial path file_size (file_type result))) (\<lambda>_.
        write_log env (Log_verify_warned decrypted_path))))))"

definition decrypted_branch ::
  "'w collaborators \<Rightarrow> string \<Rightarrow> detection \<Rightarrow> string \<Rightarrow> (event, 'w, unit) act" where
  "decrypted_branch env path result decrypted_path =
     bind_x (emit (Post (Decrypted path decrypted_path))) (\<lambda>_.
     bind_x (call (Classify decrypted_path) (get_detection_result env decrypted_path))
       (\<lambda>verify_result.
     if status_code verify_result = 0
     then verified_branch env path result decrypted_path
     else unverified_branch env path result decrypted_path))"

definition failed_branch :: "'w collaborators \<Rightarrow> string \<Rightarrow> (event, 'w, unit) act" where
  "failed_branch env path =
     bind_x (emit (Post (Decrypt_failed path))) (\<lambda>_.
     log_guarded (with_logger env (write_log env (Log_decrypt_failed path))))"

text \<open>
  The \<open>try\<close> block. \<open>if decrypted_path:\<close> is Python's truth test: \<open>None\<close> and the empty
  string both take the \<open>else\<close> branch.
\<close>

definition task_body :: "'w collaborators \<Rightarrow> string \<Rightarrow> (event, 'w, unit) act" where
  "task_body env path =
     bind_x (call (Classify path) (get_detection_result env path)) (\<lambda>result.
     if status_code result \<noteq> 1 then skip_branch env path result
     else
       bind_x (call_quiet (get_wps_path env)) (\<lambda>program_path.
       bind_x (call (Driver path program_path) (process_encrypted_file env path program_path))
         (\<lambda>decrypted_path.
       case decrypted_path of
         None \<Rightarrow> failed_branch env path
       | Some d \<Rightarrow>
           if d \<noteq> [] then decrypted_branch env path result d else failed_branch env path)))"

text \<open>The clause \<open>except Exception as e\<close> that closes the worker.\<close>

definition task_handler :: "'w collaborators \<Rightarrow> string \<Rightarrow> exn \<Rightarrow> (event, 'w, unit) act" where
  "task_handler env path e =
     bind_x (emit (Bind_e e)) (\<lambda>_.
     bind_x (emit (Post (Task_error path))) (\<lambda>_.
     bind_x (log_guarded (with_logger env (write_log env (Log_exception path e)))) (\<lambda>_.
     emit Unbind_e)))"

definition process_decrypt_task :: "'w collaborators \<Rightarrow> string \<Rightarrow> (event, 'w, unit) act" where
  "process_decrypt_task env path = try_except (task_body env path) (task_handler env path)"

definition is_log :: "event \<Rightarrow> bool" where
  "is_log ev = (case ev of Log _ \<Rightarrow> True | Warn \<Rightarrow> True | _ \<Rightarrow> False)"

definition is_driver :: "event \<Rightarrow> bool" where
  "is_driver ev = (case ev of Driver _ _ \<Rightarrow> True | _ \<Rightarrow> False)"

text \<open>The messages for the interface among the events, in order.\<close>

definition posts :: "event list \<Rightarrow> report list" where
  "posts tr = List.map_filter (\<lambda>ev. case ev of Post r \<Rightarrow> Some r | _ \<Rightarrow> None) tr"

text \<open>What the worker reports once the driver has produced a path and it is classified again.\<close>

definition verdict :: "string \<Rightarrow> exn + detection \<Rightarrow> report" where
  "verdict path v =
     (case v of
        Inl e \<Rightarrow> Task_error path
      | Inr r \<Rightarrow> if status_code r = 0 then Verify_passed else Verify_warned)"

text \<open>
  The binding of the handler's variable \<open>e\<close> after a sequence of events; \<open>None\<close> is
  unbound.
\<close>

definition cell_step :: "exn option \<Rightarrow> event \<Rightarrow> exn option" where
  "cell_step c ev = (case ev of Bind_e e \<Rightarrow> Some e | Unbind_e \<Rightarrow> None | _ \<Rightarrow> c)"

definition cell_e :: "event list \<Rightarrow> exn option" where
  "cell_e tr = foldl cell_step None tr"

text \<open>
  The tags of \<open>add_result\<close>, and the callback of a report as the event loop runs it:
  \<open>self.add_result(message, tag)\<close> with the message formatted at that moment. The
  first argument is the binding of \<open>e\<close> then. The callback of line 553 formats \<open>e\<close>
  into its message and raises \<open>NameError\<close> when \<open>e\<close> is unbound; the variables the
  other callbacks read (\<open>file_path\<close>, \<open>result\<close>, \<open>decrypted_path\<close>) stay bound.
\<close>

datatype tag = Info_tag | Success_tag | Warning_tag | Error_tag

definition run_callback :: "exn option \<Rightarrow> report \<Rightarrow> exn + tag" where
  "run_callback e r =
     (case r of
        Skipped _ _ \<Rightarrow> Inr Info_tag
      | Decrypted _ _ \<Rightarrow> Inr Success_tag
      | Verify_passed \<Rightarrow> Inr Success_tag
      | Verify_warned \<Rightarrow> Inr Warning_tag
      | Decrypt_failed _ \<Rightarrow> Inr Error_tag
      | Task_error _ \<Rightarrow>
          (case e of None \<Rightarrow> Inl (OtherException ''NameError'') | Some _ \<Rightarrow> Inr Error_tag))"

text \<open>What the scheduled callbacks give when the event loop runs them after the events.\<close>

definition delivered :: "event list \<Rightarrow> (exn + tag) list" where
  "delivered tr = map (run_callback (cell_e tr)) (posts tr)"

section \<open>The command line of main.py\<close>

text \<open>
  What \<open>main\<close> prints, one constructor for each \<open>print\<close>: the usage text, the version
  (line 102), then the lines of the compatibility mode in the order of main.py lines
  118, 123, 130, 136, 139, 142, 145, 148 and 151, the message of the last handler
  (line 163) and the traceback of the debug setting.
\<close>

datatype line =
    Usage
  | Version_line
  | Status_line string string
  | Trying string
  | Decrypt_success string
  | Verify_success
  | Verify_warning
  | Decrypt_failure
  | Skip_unencrypted
  | Skip_unrecognized
  | Not_found string
  | Fatal exn
  | Traceback

datatype level = Info_level | Warning_level | Error_level

datatype cli_event =
    Exists string
  | Check string
  | Open_and_process string "string option"
  | Print line
  | Logger level
  | Run_cli
  | Run_gui

text \<open>
  The collaborators of \<open>main\<close>, parameters as before: \<open>os.path.exists\<close> (which returns
  a truth value and does not raise), \<open>check_file_encryption_with_feedback\<close>,
  \<open>config_manager.get_settings().get('wps_path')\<close>, \<open>open_and_process_file\<close>, the
  debug setting read by the last handler, \<open>run_cli\<close> and \<open>run_gui\<close>. \<open>print\<close> and the
  methods of \<open>logger\<close> are taken to return, and so is the set-up (\<open>get_config_manager\<close>,
  \<open>get_logger\<close>). \<open>str_lower\<close> is the builtin \<open>str.lower()\<close>: it lowers code points (and
  maps the Kelvin sign U+212A to the letter k) while text here is a sequence of bytes,
  so it is a parameter too and nothing is assumed of it.
\<close>

record 'w cli_collaborators =
  str_lower :: "string \<Rightarrow> string"
  path_exists :: "string \<Rightarrow> 'w \<Rightarrow> bool \<times> 'w"
  check_file_encryption_with_feedback :: "string \<Rightarrow> 'w \<Rightarrow> (exn + detection) \<times> 'w"
  settings_wps_path :: "'w \<Rightarrow> (exn + string option) \<times> 'w"
  open_and_process_file :: "string \<Rightarrow> string option \<Rightarrow> 'w \<Rightarrow> (exn + string option) \<times> 'w"
  settings_debug :: "'w \<Rightarrow> (exn + bool) \<times> 'w"
  run_cli :: "'w \<Rightarrow> (exn + unit) \<times> 'w"
  run_gui :: "'w \<Rightarrow> (exn + unit) \<times> 'w"

definition observe :: "'ev \<Rightarrow> ('w \<Rightarrow> 'a \<times> 'w) \<Rightarrow> ('ev, 'w, 'a) act" where
  "observe ev f s = (case f (snd s) of (a, w') \<Rightarrow> (Inr a, (fst s @ [ev], w')))"

text \<open>A \<open>print\<close> followed by the call of \<open>logger\<close> that repeats it.\<close>

definition say :: "line \<Rightarrow> level \<Rightarrow> (cli_event, 'w, unit) act" where
  "say l lvl = bind_x (emit (Print l)) (\<lambda>_. emit (Logger lvl))"

definition verify_step :: "'w cli_collaborators \<Rightarrow> string \<Rightarrow> (cli_event, 'w, unit) act" where
  "verify_step env decrypted_path =
     bind_x (say (Decrypt_success decrypted_path) Info_level) (\<lambda>_.
     bind_x (call (Check decrypted_path)
               (check_file_encryption_with_feedback env decrypted_path)) (\<lambda>verify_result.
     if status_code verify_result = 0 then say Verify_success Info_level
     else say Verify_warning Warning_level))"

definition unlock_step :: "'w cli_collaborators \<Rightarrow> string \<Rightarrow> (cli_event, 'w, unit) act" where
  "unlock_step env path =
     bind_x (say (Trying path) Info_level) (\<lambda>_.
     bind_x (call_quiet (settings_wps_path env)) (\<lambda>program_path.
     bind_x (call (Open_and_process path program_path)
               (open_and_process_file env path program_path)) (\<lambda>decrypted_path.
     case decrypted_path of
       None \<Rightarrow> say Decrypt_failure Error_level
     | Some d \<Rightarrow> if d \<noteq> [] then verify_step env d else say Decrypt_failure Error_level)))"

text \<open>The body of \<open>for path in paths\<close> (main.py lines 115 to 152).\<close>

definition compat_path :: "'w cli_collaborators \<Rightarrow> string \<Rightarrow> (cli_event, 'w, unit) act" where
  "compat_path env path =
     bind_x (observe (Exists path) (path_exists env path)) (\<lambda>found.
     if found then
       bind_x (call (Check path) (check_file_encryption_with_feedback env path)) (\<lambda>result.
       bind_x (say (Status_line (status result) path) Info_level) (\<lambda>_.
       if status_code result = 1 then unlock_step env path
       else if status_code result = 0 then say Skip_unencrypted Info_level
       else say Skip_unrecognized Warning_level))
     else say (Not_found path) Error_level)"














fun visited_of :: "cli_event \<Rightarrow> string option" where
  "visited_of (Exists p) = Some p"
| "visited_of _ = None"

text \<open>The paths the loop has come to, in order.\<close>

definition visited :: "cli_event list \<Rightarrow> string list" where
  "visited tr = List.map_filter visited_of tr"


subsection \<open>The report a path calls for, as the claim words it\<close>



section \<open>Enqueueing (gui.py, \<open>YSTApplication.decrypt_file\<close>)\<close>

text \<open>
  A task is the pair \<open>(task_type, file_path)\<close> put on \<open>task_queue\<close>. What
  \<open>decrypt_file\<close> reads of the file system is a parameter: \<open>os.path.isdir\<close>, the
  triples \<open>(root, dirs, files)\<close> that \<open>os.walk\<close> yields, and \<open>os.path.join\<close>.
\<close>

type_synonym task = "string \<times> string"

record file_system =
  isdir :: "string \<Rightarrow> bool"
  walk :: "string \<Rightarrow> (string \<times> string list \<times> string list) list"
  path_join :: "string \<Rightarrow> string \<Rightarrow> string"

datatype ui_event = Show_warning | Clear_results | Add_result string

text \<open>\<open>for file in files: self.task_queue.put(('decrypt', os.path.join(root, file)))\<close>\<close>

fun enqueue_files :: "file_system \<Rightarrow> string \<Rightarrow> string list \<Rightarrow> task list \<Rightarrow> task list" where
  "enqueue_files fs root [] q = q"
| "enqueue_files fs root (file # files) q =
     enqueue_files fs root files (q @ [(''decrypt'', path_join fs root file)])"

text \<open>\<open>for root, _, files in os.walk(path)\<close>\<close>

fun enqueue_walk ::
  "file_system \<Rightarrow> (string \<times> string list \<times> string list) list \<Rightarrow> task list \<Rightarrow> task list" where
  "enqueue_walk fs [] q = q"
| "enqueue_walk fs ((root, dirs, files) # rest) q =
     enqueue_walk fs rest (enqueue_files fs root files q)"

text \<open>
  \<open>decrypt_file\<close>, from the path in the entry field and the queue to what the interface
  shows and the queue afterwards.
\<close>

definition decrypt_file :: "file_system \<Rightarrow> string \<Rightarrow> task list \<Rightarrow> ui_event list \<times> task list" where
  "decrypt_file fs path q =
     (if path = [] then ([Show_warning], q)
      else ([Clear_results, Add_result path],
            if isdir fs path then enqueue_walk fs (walk fs path) q
            else q @ [(''decrypt'', path)]))"

text \<open>The files a traversal has found, each joined to its directory, in order.\<close>

definition found_files ::
  "file_system \<Rightarrow> (string \<times> string list \<times> string list) list \<Rightarrow> string list" where
  "found_files fs triples =
     concat (map (\<lambda>(root, dirs, files). map (path_join fs root) files) triples)"

section \<open>The dispatch loop (gui.py, \<open>YSTApplication.process_queue\<close>)\<close>

text \<open>
  A thread object is its identity and the argument of its target. \<open>alive\<close> holds the
  identities of the threads that have been started and whose target has not returned
  (\<open>is_alive()\<close>). \<open>process_queue\<close> runs on the interface's thread while workers end on
  their own, so the loop is modelled one iteration at a time: \<open>at\<close> says where the
  interface's thread stands (between two ticks, in the \<open>while\<close> loop, or in the \<open>for\<close>
  loop at an index of the list it iterates over).
\<close>

datatype position = Idle | Admitting | Cleaning nat

record scheduler =
  task_queue :: "task list"
  thread_pool :: "(nat \<times> string) list"
  max_threads :: int
  alive :: "nat set"
  started :: nat
  at :: position

text \<open>
  \<open>__init__\<close>, lines 46 to 49: \<open>settings.get('max_threads', 5)\<close>. The setting is modelled
  as an integer.
\<close>

definition init :: "(string \<rightharpoonup> int) \<Rightarrow> scheduler" where
  "init settings =
     \<lparr>task_queue = [], thread_pool = [],
      max_threads = (case settings ''max_threads'' of None \<Rightarrow> 5 | Some v \<Rightarrow> v),
      alive = {}, started = 0, at = Idle\<rparr>"

text \<open>The condition of the \<open>while\<close> loop.\<close>

definition loop_guard :: "scheduler \<Rightarrow> bool" where
  "loop_guard s = (int (length (thread_pool s)) < max_threads s \<and> task_queue s \<noteq> [])"

text \<open>
  One iteration of the \<open>while\<close> loop: a task is taken; a \<open>decrypt\<close> task gets a thread,
  which is started and appended to the pool; any other task is dropped (\<open>continue\<close>).
\<close>

definition admit :: "scheduler \<Rightarrow> scheduler" where
  "admit s =
     (case task_queue s of
        [] \<Rightarrow> s
      | (task_type, path) # q \<Rightarrow>
          if task_type = ''decrypt''
          then s\<lparr>task_queue := q,
                 thread_pool := thread_pool s @ [(started s, path)],
                 alive := insert (started s) (alive s),
                 started := Suc (started s)\<rparr>
          else s\<lparr>task_queue := q\<rparr>)"

text \<open>
  The thread of a \<open>decrypt\<close> task cannot be created or started and the call
  raises: the task has been taken, the thread neither runs nor enters the pool, and
  the handler of lines 446 to 448 ends the tick.
\<close>

definition admit_fails :: "scheduler \<Rightarrow> scheduler" where
  "admit_fails s = s\<lparr>task_queue := tl (task_queue s), at := Idle\<rparr>"

text \<open>
  One iteration of \<open>for thread in self.thread_pool\<close> at index \<open>i\<close> of the list as it
  is now: \<open>remove\<close> deletes the first equal element, and the iteration goes on at
  \<open>i + 1\<close> of the shortened list.
\<close>

definition clean :: "nat \<Rightarrow> scheduler \<Rightarrow> scheduler" where
  "clean i s =
     (let thread = thread_pool s ! i
      in (if fst thread \<notin> alive s
          then s\<lparr>thread_pool := remove1 thread (thread_pool s)\<rparr>
          else s)\<lparr>at := Cleaning (Suc i)\<rparr>)"

text \<open>
  The steps of the whole: a task is put on the queue, a worker ends, a tick begins,
  the \<open>while\<close> loop runs an iteration or ends, the \<open>for\<close> loop runs an iteration or ends.
\<close>

inductive step :: "scheduler \<Rightarrow> scheduler \<Rightarrow> bool" where
  put: "step s (s\<lparr>task_queue := task_queue s @ [task]\<rparr>)"
| finish: "t \<in> alive s \<Longrightarrow> step s (s\<lparr>alive := alive s - {t}\<rparr>)"
| tick: "at s = Idle \<Longrightarrow> step s (s\<lparr>at := Admitting\<rparr>)"
| admit: "at s = Admitting \<Longrightarrow> loop_guard s \<Longrightarrow> step s (admit s)"
| admit_fails: "at s = Admitting \<Longrightarrow> loop_guard s \<Longrightarrow> fst (hd (task_queue s)) = ''decrypt''
     \<Longrightarrow> step s (admit_fails s)"
| admitted: "at s = Admitting \<Longrightarrow> \<not> loop_guard s \<Longrightarrow> step s (s\<lparr>at := Cleaning 0\<rparr>)"
| clean: "at s = Cleaning i \<Longrightarrow> i < length (thread_pool s) \<Longrightarrow> step s (clean i s)"
| cleaned: "at s = Cleaning i \<Longrightarrow> \<not> i < length (thread_pool s) \<Longrightarrow> step s (s\<lparr>at := Idle\<rparr>)"

inductive reachable :: "(string \<rightharpoonup> int) \<Rightarrow> scheduler \<Rightarrow> bool" where
  initial: "reachable settings (init settings)"
| later: "reachable settings s \<Longrightarrow> step s s' \<Longrightarrow> reachable settings s'"

text \<open>Every live worker is in the pool, and the pool is no longer than the bound allows.\<close>

definition pool_inv :: "scheduler \<Rightarrow> bool" where
  "pool_inv s =
     (alive s \<subseteq> fst ` set (thread_pool s)
      \<and> int (length (thread_pool s)) \<le> max 0 (max_threads s))"

section \<open>The update check (gui.py, \<open>YSTApplication.check_for_updates\<close>)\<close>

text \<open>
  The texts \<open>update_status_var\<close> is set to, as the bytes of their UTF-8 encoding, in
  the order of gui.py lines 648, 655, 685, 709, 723 (and 759), 737 and 748.
\<close>

definition msg_unavailable :: string where
  "msg_unavailable = [CHR 0xE5, CHR 0x8A, CHR 0x9F, CHR 0xE8, CHR 0x83, CHR 0xBD, CHR 0xE4,
     CHR 0xB8, CHR 0x8D, CHR 0xE5, CHR 0x8F, CHR 0xAF, CHR 0xE7, CHR 0x94, CHR 0xA8]"

definition msg_checking :: string where
  "msg_checking = [CHR 0xE6, CHR 0xAD, CHR 0xA3, CHR 0xE5, CHR 0x9C, CHR 0xA8, CHR 0xE6,
     CHR 0xA3, CHR 0x80, CHR 0xE6, CHR 0x9F, CHR 0xA5, CHR 0xE6, CHR 0x96, CHR 0xB0, CHR 0xE7,
     CHR 0x89, CHR 0x88, CHR 0xE6, CHR 0x9C, CHR 0xAC, CHR 0x2E, CHR 0x2E, CHR 0x2E]"

definition msg_new_version :: string where
  "msg_new_version = [CHR 0xE5, CHR 0x8F, CHR 0x91, CHR 0xE7, CHR 0x8E, CHR 0xB0, CHR 0xE6,
     CHR 0x96, CHR 0xB0, CHR 0xE7, CHR 0x89, CHR 0x88, CHR 0xE6, CHR 0x9C, CHR 0xAC, CHR 0xEF,
     CHR 0xBC, CHR 0x81]"

definition msg_latest :: string where
  "msg_latest = [CHR 0xE5, CHR 0xB7, CHR 0xB2, CHR 0xE6, CHR 0x98, CHR 0xAF, CHR 0xE6,
     CHR 0x9C, CHR 0x80, CHR 0xE6, CHR 0x96, CHR 0xB0, CHR 0xE7, CHR 0x89, CHR 0x88, CHR 0xE6,
     CHR 0x9C, CHR 0xAC]"

definition msg_failed :: string where
  "msg_failed = [CHR 0xE6, CHR 0xA3, CHR 0x80, CHR 0xE6, CHR 0x9F, CHR 0xA5, CHR 0xE5,
     CHR 0xA4, CHR 0xB1, CHR 0xE8, CHR 0xB4, CHR 0xA5]"

definition msg_timeout :: string where
  "msg_timeout = [CHR 0xE6, CHR 0xA3, CHR 0x80, CHR 0xE6, CHR 0x9F, CHR 0xA5, CHR 0xE8,
     CHR 0xB6, CHR 0x85, CHR 0xE6, CHR 0x97, CHR 0xB6]"

definition msg_network :: string where
  "msg_network = [CHR 0xE7, CHR 0xBD, CHR 0x91, CHR 0xE7, CHR 0xBB, CHR 0x9C, CHR 0xE9,
     CHR 0x94, CHR 0x99, CHR 0xE8, CHR 0xAF, CHR 0xAF]"

definition api_url :: string where
  "api_url = ''https://api.github.com/repos/YST-Team/file-encryption-tool/releases/latest''"

definition current_version :: string where
  "current_version = ''5.1''"

text \<open>
  The reply of \<open>requests.get\<close>: its status code and what \<open>response.json()\<close> gives, which
  may raise. A reply whose JSON is no object makes the \<open>.get\<close> of the next line raise,
  with nothing done in between, and is an \<open>Inl\<close> here as well. Of the release,
  \<open>tag_name\<close> is \<open>None\<close> when the value has no \<open>lstrip\<close> (it is no string) and \<open>body\<close> is
  \<open>None\<close> when the value cannot be sliced (JSON's null, a number): the call and the
  slice then raise. A missing key has the default \<open>''\<close>.
\<close>

record release_info =
  tag_name :: "string option"
  html_url :: string
  body :: "string option"

record response =
  http_status :: int
  json :: "exn + release_info"

text \<open>
  The message boxes, one constructor for each call, in the order of the source. But
  for the first, they are scheduled with \<open>self.after(0, ...)\<close> and shown later by the
  event loop. The box of line 760 formats the handler's variable \<open>e\<close> into its text
  at that moment, as the callback of line 553 does, so the exception is no part of
  what is scheduled.
\<close>

datatype dialog =
    Unavailable_dialog
  | Update_dialog string string string
  | Latest_dialog
  | Http_failed_dialog int
  | Timeout_dialog
  | Network_dialog
  | Failure_dialog

datatype update_event =
    Set_status string
  | Info_logged
  | Http_get string nat
  | Show dialog

text \<open>
  The collaborators: \<open>requests.get(url, timeout=seconds)\<close> and the log manager, whose
  every use stands in \<open>try: ... except: pass\<close>.
\<close>

record 'w update_collaborators =
  http_get :: "string \<Rightarrow> nat \<Rightarrow> 'w \<Rightarrow> (exn + response) \<times> 'w"
  log_operation :: "'w \<Rightarrow> (exn + unit) \<times> 'w"

definition lift :: "exn + 'a \<Rightarrow> ('ev, 'w, 'a) act" where
  "lift r s = (r, s)"

definition quiet_log :: "'w update_collaborators \<Rightarrow> (update_event, 'w, unit) act" where
  "quiet_log env = try_except (call_quiet (log_operation env)) (\<lambda>e. return_x ())"

text \<open>\<open>except requests.exceptions.Timeout\<close> and \<open>except requests.exceptions.ConnectionError\<close>.\<close>

definition is_timeout :: "exn \<Rightarrow> bool" where
  "is_timeout e = (e = Timeout \<or> e = ConnectTimeout)"

definition is_connection_error :: "exn \<Rightarrow> bool" where
  "is_connection_error e = (e = ConnectionError \<or> e = ConnectTimeout)"

text \<open>The branch of a reply with status 200.\<close>

definition release_step ::
  "'w update_collaborators \<Rightarrow> response \<Rightarrow> (update_event, 'w, unit) act" where
  "release_step env resp =
     bind_x (lift (json resp)) (\<lambda>release.
     bind_x (lift (case tag_name release of
                     None \<Rightarrow> Inl (OtherException ''AttributeError'')
                   | Some t \<Rightarrow> Inr (dropWhile (\<lambda>c. c = CHR ''v'') t))) (\<lambda>latest_version.
     if compare_versions latest_version current_version > 0 then
       bind_x (emit (Set_status msg_new_version)) (\<lambda>_.
       bind_x (lift (case body release of
                       None \<Rightarrow> Inl (OtherException ''TypeError'')
                     | Some notes \<Rightarrow> Inr (take 200 notes))) (\<lambda>notes.
       bind_x (quiet_log env) (\<lambda>_.
       emit (Show (Update_dialog latest_version notes (html_url release))))))
     else
       bind_x (emit (Set_status msg_latest)) (\<lambda>_.
       bind_x (emit (Show Latest_dialog)) (\<lambda>_.
       quiet_log env))))"

text \<open>The \<open>try\<close> block of \<open>check_updates_thread\<close>.\<close>

definition update_body :: "'w update_collaborators \<Rightarrow> (update_event, 'w, unit) act" where
  "update_body env =
     bind_x (emit (Set_status msg_checking)) (\<lambda>_.
     bind_x (emit Info_logged) (\<lambda>_.
     bind_x (quiet_log env) (\<lambda>_.
     bind_x (call (Http_get api_url 10) (http_get env api_url 10)) (\<lambda>resp.
     if http_status resp = 200 then release_step env resp
     else
       bind_x (emit (Set_status msg_failed)) (\<lambda>_.
       bind_x (emit (Show (Http_failed_dialog (http_status resp)))) (\<lambda>_.
       quiet_log env))))))"

text \<open>The three \<open>except\<close> clauses, in the order of the source.\<close>

definition update_handler :: "'w update_collaborators \<Rightarrow> exn \<Rightarrow> (update_event, 'w, unit) act" where
  "update_handler env e =
     (if is_timeout e then
        bind_x (emit (Set_status msg_timeout)) (\<lambda>_.
        bind_x (emit (Show Timeout_dialog)) (\<lambda>_. quiet_log env))
      else if is_connection_error e then
        bind_x (emit (Set_status msg_network)) (\<lambda>_.
        bind_x (emit (Show Network_dialog)) (\<lambda>_. quiet_log env))
      else
        bind_x (emit (Set_status msg_failed)) (\<lambda>_.
        bind_x (emit (Show Failure_dialog)) (\<lambda>_. quiet_log env)))"

definition check_updates_thread :: "'w update_collaborators \<Rightarrow> (update_event, 'w, unit) act" where
  "check_updates_thread env = try_except (update_body env) (update_handler env)"

text \<open>
  \<open>check_for_updates\<close>; \<open>requests_available\<close> is the module's flag. The thread it starts
  is run here to its end.
\<close>

definition check_for_updates ::
  "bool \<Rightarrow> 'w update_collaborators \<Rightarrow> (update_event, 'w, unit) act" where
  "check_for_updates requests_available env =
     (if \<not> requests_available then
        bind_x (emit (Set_status msg_unavailable)) (\<lambda>_. emit (Show Unavailable_dialog))
      else check_updates_thread env)"




section \<open>Sample collaborators\<close>

text \<open>
  Collaborators with fixed answers, on which the theorems below are exercised. The
  world is a counter of the driver's invocations.
\<close>

definition sample_detection :: "string \<Rightarrow> detection" where
  "sample_detection p =
     \<lparr>file_path = p,
      status = (if p = ''a.enc'' \<or> p = ''b.enc'' \<or> p = ''c.enc'' then ''encrypted''
                else if p = ''a.txt'' \<or> p = ''a.enc.out'' then ''plain''
                else if p = ''a.lock'' then ''missing'' else ''unknown''),
      status_code = (if p = ''a.enc'' \<or> p = ''b.enc'' \<or> p = ''c.enc'' then 1
                     else if p = ''a.txt'' \<or> p = ''a.enc.out'' then 0
                     else if p = ''a.lock'' then - 1 else 2),
      file_type = None\<rparr>"

definition sample_env :: "nat collaborators" where
  "sample_env =
     \<lparr>get_detection_result = (\<lambda>p w. (Inr (sample_detection p), w)),
      get_wps_path = (\<lambda>w. (Inr (Some ''wps.exe''), w)),
      process_encrypted_file = (\<lambda>p g w. (Inr (Some (p @ ''.out'')), Suc w)),
      getsize = (\<lambda>p w. (Inr 1, w)),
      get_logger_manager = (\<lambda>w. (Inr (), w)),
      log_write = (\<lambda>entry w. (Inr (), w))\<rparr>"

definition failing_env :: "nat collaborators" where
  "failing_env =
     sample_env\<lparr>get_detection_result := (\<lambda>p w. (Inl (OtherException ''unreadable''), w))\<rparr>"

text \<open>A lowering of the letters A to Z, for the sample command line.\<close>

definition ascii_lower :: "char \<Rightarrow> char" where
  "ascii_lower c =
     (let n = (of_char c :: nat) in if 65 \<le> n \<and> n \<le> 90 then char_of (n + 32) else c)"

definition sample_cli :: "nat cli_collaborators" where
  "sample_cli =
     \<lparr>str_lower = map ascii_lower,
      path_exists = (\<lambda>p w. (p \<noteq> ''gone.doc'', w)),
      check_file_encryption_with_feedback = (\<lambda>p w. (Inr (sample_detection p), w)),
      settings_wps_path = (\<lambda>w. (Inr (Some ''wps.exe''), w)),
      open_and_process_file =
        (\<lambda>p g w. (Inr (if p = ''c.enc'' then None else Some (p @ ''.out'')), Suc w)),
      settings_debug = (\<lambda>w. (Inr False, w)),
      run_cli = (\<lambda>w. (Inr (), w)),
      run_gui = (\<lambda>w. (Inr (), w))\<rparr>"

definition sample_fs :: file_system where
  "sample_fs =
     \<lparr>isdir = (\<lambda>p. p = ''docs''),
      walk = (\<lambda>p. if p = ''docs''
                   then [(''docs'', [''sub''], [''a.enc'', ''a.txt'']), (''docs/sub'', [], [''c.bin''])]
                   else []),
      path_join = (\<lambda>root file. root @ ''/'' @ file)\<rparr>"



definition one_worker :: scheduler where
  "one_worker =
     \<lparr>task_queue = [], thread_pool = [(0, ''a.enc'')], max_threads = 5, alive = {0},
      started = 1, at = Admitting\<rparr>"

section \<open>Properties of the version comparison\<close>

lemma parse_parts_those: "parse_parts xs = those (map py_int xs)"
  by (induction xs) (auto split: option.splits)

lemma compare_loop_find:
  "length v1 = n \<Longrightarrow> length v2 = n \<Longrightarrow> i \<le> n \<Longrightarrow>
   compare_loop i n v1 v2 = decide (find (\<lambda>(x, y). x \<noteq> y) (zip (drop i v1) (drop i v2)))"
proof (induction i n v1 v2 rule: compare_loop.induct)
  case (1 i max_len v1 v2)
  show ?case
  proof (cases "i < max_len")
    case False
    with 1 show ?thesis
      by (subst compare_loop.simps) (simp add: decide_def)
  next
    case True
    with 1 have d1: "drop i v1 = v1 ! i # drop (Suc i) v1"
      and d2: "drop i v2 = v2 ! i # drop (Suc i) v2"
      by (simp_all add: Cons_nth_drop_Suc)
    show ?thesis
    proof (cases "v1 ! i = v2 ! i")
      case True
      with \<open>i < max_len\<close> 1 show ?thesis
        by (subst compare_loop.simps) (simp add: d1 d2)
    next
      case False
      with \<open>i < max_len\<close> show ?thesis
        by (subst compare_loop.simps) (auto simp: d1 d2 decide_def)
    qed
  qed
qed

lemma compare_loop_antisym:
  "compare_loop i n v1 v2 = - compare_loop i n v2 v1"
proof (induction i n v1 v2 rule: compare_loop.induct)
  case (1 i max_len v1 v2)
  then show ?case
    by (subst compare_loop.simps, subst (2) compare_loop.simps) auto
qed

lemma compare_versions_spec_compare: "compare_versions a b = spec_compare a b"
  by (simp add: compare_versions_def spec_compare_def compare_padded_def pad_zeros_def
      parse_parts_those compare_loop_find Let_def split: option.splits)

lemma compare_versions_swap: "compare_versions a b = - compare_versions b a"
  by (simp add: compare_versions_def Let_def max.commute compare_loop_antisym [symmetric]
      split: option.splits)

text \<open>
  Claim C4. For every pair of version strings, \<open>_compare_versions\<close> computes the
  comparison the specification describes: split on the dot, parse each component,
  pad the shorter list with zeros on the right, let the first unequal pair decide,
  and answer 0 when a component of either string does not parse. In particular
  5.2 against 5.1 gives 1, 5.1 against 5.1.0 gives 0, 5.1 against 5.2 gives -1, and
  abc against 1.0 gives 0.
\<close>

theorem compare_versions_refines_spec:
  "compare_versions a b = spec_compare a b
   \<and> compare_versions ''5.2'' ''5.1'' = 1
   \<and> compare_versions ''5.1'' ''5.1.0'' = 0
   \<and> compare_versions ''5.1'' ''5.2'' = - 1
   \<and> compare_versions ''abc'' ''1.0'' = 0"
proof -
  have "compare_versions ''5.2'' ''5.1'' = 1" by code_simp
  moreover have "compare_versions ''5.1'' ''5.1.0'' = 0" by code_simp
  moreover have "compare_versions ''5.1'' ''5.2'' = - 1" by code_simp
  moreover have "compare_versions ''abc'' ''1.0'' = 0" by code_simp
  ultimately show ?thesis
    by (simp add: compare_versions_spec_compare)
qed

theorem compare_versions_refines_spec_witness:
  "compare_versions ''5.10.1'' ''5.9'' = spec_compare ''5.10.1'' ''5.9''
   \<and> spec_compare ''5.10.1'' ''5.9'' = 1"
proof -
  have "spec_compare ''5.10.1'' ''5.9'' = 1" by code_simp
  then show ?thesis
    using compare_versions_refines_spec [of "''5.10.1''" "''5.9''"] by simp
qed

text \<open>
  Claim C9. For every pair of strings, swapping the arguments of \<open>_compare_versions\<close>
  negates the result; so a string compared with itself gives 0, also a string that
  does not parse.
\<close>

theorem compare_versions_antisym:
  "compare_versions a b = - compare_versions b a \<and> compare_versions v v = 0"
  using compare_versions_swap [of a b] compare_versions_swap [of v v] by simp

theorem compare_versions_antisym_witness:
  "compare_versions ''5.1'' ''5.2'' = - compare_versions ''5.2'' ''5.1''
   \<and> compare_versions ''5.2'' ''5.1'' = 1
   \<and> compare_versions ''x.y'' ''x.y'' = 0"
proof -
  have "compare_versions ''5.2'' ''5.1'' = 1" by code_simp
  then show ?thesis
    using compare_versions_antisym [of "''5.1''" "''5.2''" "''x.y''"] by simp
qed

section \<open>Properties of the worker\<close>

lemma adds_return: "adds (return_x a) P"
  by (simp add: adds_def return_x_def)

lemma adds_emit: "P ev \<Longrightarrow> adds (emit ev) P"
  by (simp add: adds_def emit_def)

lemma adds_call: "P ev \<Longrightarrow> adds (call ev f) P"
  by (simp add: adds_def call_def split: prod.splits)

lemma adds_call_quiet: "adds (call_quiet f) P"
  by (simp add: adds_def call_quiet_def split: prod.splits)

lemma adds_bind:
  assumes m: "adds m P" and f: "\<And>a. adds (f a) P"
  shows "adds (bind_x m f) P"
  unfolding adds_def
proof
  fix s
  obtain r s1 where ms: "m s = (r, s1)" by (cases "m s")
  from m ms obtain n1 where n1: "fst s1 = fst s @ n1" "list_all P n1"
    unfolding adds_def by (metis snd_conv)
  show "\<exists>new. fst (snd (bind_x m f s)) = fst s @ new \<and> list_all P new"
  proof (cases r)
    case (Inl e)
    with ms n1 show ?thesis by (auto simp: bind_x_def)
  next
    case (Inr a)
    from f [of a] obtain n2 where n2: "fst (snd (f a s1)) = fst s1 @ n2" "list_all P n2"
      unfolding adds_def by blast
    have "fst (snd (bind_x m f s)) = fst s @ (n1 @ n2)"
      using ms Inr n1 n2 by (simp add: bind_x_def)
    moreover have "list_all P (n1 @ n2)" using n1 n2 by simp
    ultimately show ?thesis by blast
  qed
qed

lemma adds_try:
  assumes m: "adds m P" and h: "\<And>e. adds (h e) P"
  shows "adds (try_except m h) P"
  unfolding adds_def
proof
  fix s
  obtain r s1 where ms: "m s = (r, s1)" by (cases "m s")
  from m ms obtain n1 where n1: "fst s1 = fst s @ n1" "list_all P n1"
    unfolding adds_def by (metis snd_conv)
  show "\<exists>new. fst (snd (try_except m h s)) = fst s @ new \<and> list_all P new"
  proof (cases r)
    case (Inr a)
    with ms n1 show ?thesis by (auto simp: try_except_def)
  next
    case (Inl e)
    from h [of e] obtain n2 where n2: "fst (snd (h e s1)) = fst s1 @ n2" "list_all P n2"
      unfolding adds_def by blast
    have "fst (snd (try_except m h s)) = fst s @ (n1 @ n2)"
      using ms Inl n1 n2 by (simp add: try_except_def)
    moreover have "list_all P (n1 @ n2)" using n1 n2 by simp
    ultimately show ?thesis by blast
  qed
qed

lemma try_except_returns:
  assumes "\<And>e s. fst (h e s) = Inr ()"
  shows "fst (try_except m h s) = Inr ()"
proof -
  obtain r s1 where ms: "m s = (r, s1)" by (cases "m s")
  show ?thesis
  proof (cases r)
    case (Inl e)
    with ms assms [of e s1] show ?thesis by (simp add: try_except_def)
  next
    case (Inr a)
    with ms show ?thesis by (simp add: try_except_def)
  qed
qed

lemma log_guarded_returns: "fst (log_guarded m s) = Inr ()"
  unfolding log_guarded_def by (rule try_except_returns) (simp add: emit_def)

lemma adds_write_log: "adds (write_log env entry) is_log"
  unfolding write_log_def by (rule adds_call) (simp add: is_log_def)

lemma adds_with_logger: "adds m is_log \<Longrightarrow> adds (with_logger env m) is_log"
  unfolding with_logger_def by (intro adds_bind adds_call_quiet)

lemma adds_logged_entry: "adds (with_logger env (write_log env entry)) is_log"
  by (intro adds_with_logger adds_write_log)

lemma adds_file_size_of: "adds (file_size_of env path) P"
  unfolding file_size_of_def
  by (intro adds_try adds_bind adds_call_quiet adds_return)

lemma adds_log_guarded: "adds m is_log \<Longrightarrow> adds (log_guarded m) is_log"
  unfolding log_guarded_def by (rule adds_try) (simp_all add: adds_emit is_log_def)

lemma log_guarded_run:
  assumes "adds m is_log"
  shows "\<exists>new w'. log_guarded m (tr, w) = (Inr (), (tr @ new, w')) \<and> list_all is_log new"
proof -
  from adds_log_guarded [OF assms] obtain new
    where new: "fst (snd (log_guarded m (tr, w))) = tr @ new" "list_all is_log new"
    unfolding adds_def by (metis fst_conv)
  have "log_guarded m (tr, w) = (Inr (), (tr @ new, snd (snd (log_guarded m (tr, w)))))"
    using new(1) log_guarded_returns [of m "(tr, w)"]
    by (metis prod.collapse)
  with new(2) show ?thesis by blast
qed

lemma posts_logs: "list_all is_log new \<Longrightarrow> posts new = []"
  by (induction new) (auto simp: posts_def is_log_def split: event.splits)

lemma posts_append: "posts (xs @ ys) = posts xs @ posts ys"
  by (simp add: posts_def List.map_filter_def)

lemma drivers_logs: "list_all is_log new \<Longrightarrow> \<not> list_ex is_driver new"
  by (induction new) (auto simp: is_log_def is_driver_def split: event.splits)

lemma skip_branch_run:
  "\<exists>new w'. skip_branch env path r (tr, w) =
     (Inr (), (tr @ Post (Skipped path (status r)) # new, w')) \<and> list_all is_log new"
  using log_guarded_run [OF adds_logged_entry, of env "Log_skip path"
      "tr @ [Post (Skipped path (status r))]" w]
  by (auto simp: skip_branch_def bind_x_def emit_def)

lemma failed_branch_run:
  "\<exists>new w'. failed_branch env path (tr, w) =
     (Inr (), (tr @ Post (Decrypt_failed path) # new, w')) \<and> list_all is_log new"
  using log_guarded_run [OF adds_logged_entry, of env "Log_decrypt_failed path"
      "tr @ [Post (Decrypt_failed path)]" w]
  by (auto simp: failed_branch_def bind_x_def emit_def)

lemma task_handler_run:
  "\<exists>logs w'. task_handler env path e (tr, w) =
     (Inr (), (tr @ Bind_e e # Post (Task_error path) # logs @ [Unbind_e], w'))
     \<and> list_all is_log logs"
  using log_guarded_run [OF adds_logged_entry, of env "Log_exception path e"
      "tr @ [Bind_e e, Post (Task_error path)]" w]
  by (auto simp: task_handler_def bind_x_def emit_def)

lemma adds_two_logs:
  "adds (with_logger env (bind_x (file_size_of env path) (\<lambda>file_size.
         bind_x (write_log env (e1 file_size)) (\<lambda>_. write_log env e2)))) is_log"
  by (intro adds_with_logger adds_bind adds_file_size_of adds_write_log)

lemma verified_branch_run:
  "\<exists>new w'. verified_branch env path r d (tr, w) =
     (Inr (), (tr @ Post Verify_passed # new, w')) \<and> list_all is_log new"
  using log_guarded_run [OF adds_two_logs, of env path
      "\<lambda>fs. Log_decrypt_verified path fs (file_type r)" "Log_verify_passed d"
      "tr @ [Post Verify_passed]" w]
  by (auto simp: verified_branch_def bind_x_def emit_def)

lemma unverified_branch_run:
  "\<exists>new w'. unverified_branch env path r d (tr, w) =
     (Inr (), (tr @ Post Verify_warned # new, w')) \<and> list_all is_log new"
  using log_guarded_run [OF adds_two_logs, of env path
      "\<lambda>fs. Log_decrypt_partial path fs (file_type r)" "Log_verify_warned d"
      "tr @ [Post Verify_warned]" w]
  by (auto simp: unverified_branch_def bind_x_def emit_def)

lemma worker_returns: "fst (process_decrypt_task env path s) = Inr ()"
  unfolding process_decrypt_task_def
proof (rule try_except_returns)
  fix e s
  show "fst (task_handler env path e s) = Inr ()"
    using task_handler_run [of env path e "fst s" "snd s"] by auto
qed

lemma worker_body_raises:
  assumes "task_body env path s = (Inl e, (tr1, w1))"
  shows "\<exists>logs w'. process_decrypt_task env path s =
           (Inr (), (tr1 @ Bind_e e # Post (Task_error path) # logs @ [Unbind_e], w'))
         \<and> list_all is_log logs"
  using assms task_handler_run [of env path e tr1 w1]
  by (simp add: process_decrypt_task_def try_except_def)

lemma worker_classify_raises:
  assumes "get_detection_result env path w = (Inl e, w1)"
  shows "\<exists>logs w'. process_decrypt_task env path ([], w) =
           (Inr (), ([Classify path, Bind_e e, Post (Task_error path)] @ logs @ [Unbind_e], w'))
         \<and> list_all is_log logs"
proof -
  have "task_body env path ([], w) = (Inl e, ([Classify path], w1))"
    using assms by (simp add: task_body_def bind_x_def call_def)
  from worker_body_raises [OF this] show ?thesis by simp
qed

lemma worker_skip:
  assumes "get_detection_result env path w = (Inr r, w1)" and "status_code r \<noteq> 1"
  shows "\<exists>new w'. process_decrypt_task env path ([], w) =
           (Inr (), ([Classify path, Post (Skipped path (status r))] @ new, w'))
         \<and> list_all is_log new"
proof -
  from skip_branch_run [of env path r "[Classify path]" w1] obtain new w'
    where "skip_branch env path r ([Classify path], w1) =
             (Inr (), ([Classify path] @ Post (Skipped path (status r)) # new, w'))"
      and "list_all is_log new" by blast
  then show ?thesis
    using assms
    by (auto simp: process_decrypt_task_def try_except_def task_body_def bind_x_def call_def)
qed

lemma worker_config_raises:
  assumes "get_detection_result env path w = (Inr r, w1)" and "status_code r = 1"
    and "get_wps_path env w1 = (Inl e, w2)"
  shows "\<exists>logs w'. process_decrypt_task env path ([], w) =
           (Inr (), ([Classify path, Bind_e e, Post (Task_error path)] @ logs @ [Unbind_e], w'))
         \<and> list_all is_log logs"
proof -
  have "task_body env path ([], w) = (Inl e, ([Classify path], w2))"
    using assms by (simp add: task_body_def bind_x_def call_def call_quiet_def)
  from worker_body_raises [OF this] show ?thesis by simp
qed

lemma worker_driver_raises:
  assumes "get_detection_result env path w = (Inr r, w1)" and "status_code r = 1"
    and "get_wps_path env w1 = (Inr prog, w2)"
    and "process_encrypted_file env path prog w2 = (Inl e, w3)"
  shows "\<exists>logs w'. process_decrypt_task env path ([], w) =
           (Inr (), ([Classify path, Driver path prog, Bind_e e, Post (Task_error path)]
                     @ logs @ [Unbind_e], w'))
         \<and> list_all is_log logs"
proof -
  have "task_body env path ([], w) = (Inl e, ([Classify path, Driver path prog], w3))"
    using assms by (simp add: task_body_def bind_x_def call_def call_quiet_def)
  from worker_body_raises [OF this] show ?thesis by simp
qed

lemma worker_driver_fails:
  assumes "get_detection_result env path w = (Inr r, w1)" and "status_code r = 1"
    and "get_wps_path env w1 = (Inr prog, w2)"
    and "process_encrypted_file env path prog w2 = (Inr d, w3)"
    and "d = None \<or> d = Some []"
  shows "\<exists>new w'. process_decrypt_task env path ([], w) =
           (Inr (), ([Classify path, Driver path prog, Post (Decrypt_failed path)] @ new, w'))
         \<and> list_all is_log new"
proof -
  from failed_branch_run [of env path "[Classify path, Driver path prog]" w3] obtain new w'
    where "failed_branch env path ([Classify path, Driver path prog], w3) =
             (Inr (), ([Classify path, Driver path prog] @ Post (Decrypt_failed path) # new, w'))"
      and "list_all is_log new" by blast
  then show ?thesis
    using assms
    by (auto simp: process_decrypt_task_def try_except_def task_body_def bind_x_def call_def
        call_quiet_def)
qed

lemma posts_Nil: "posts [] = []"
  by (simp add: posts_def)

lemma posts_Cons:
  "posts (x # xs) = (case x of Post r \<Rightarrow> r # posts xs | _ \<Rightarrow> posts xs)"
  by (simp add: posts_def split: event.splits)

lemma posts_handler:
  "list_all is_log logs \<Longrightarrow>
   posts (tr @ Bind_e e # Post (Task_error path) # logs @ [Unbind_e]) = posts tr @ [Task_error path]"
  by (simp add: posts_append posts_Cons posts_Nil posts_logs)

lemma worker_verifies:
  assumes "get_detection_result env path w = (Inr r, w1)" and "status_code r = 1"
    and "get_wps_path env w1 = (Inr prog, w2)"
    and "process_encrypted_file env path prog w2 = (Inr (Some d), w3)" and "d \<noteq> []"
    and "get_detection_result env d w3 = (v, w4)"
  shows "\<exists>tr w'. process_decrypt_task env path ([], w) = (Inr (), (tr, w'))
          \<and> posts tr = [Decrypted path d, verdict path v]"
proof -
  let ?tr = "[Classify path, Driver path prog, Post (Decrypted path d), Classify d]"
  have pre: "posts ?tr = [Decrypted path d]" by (simp add: posts_def)
  have body: "task_body env path ([], w) =
      (case v of
         Inl e \<Rightarrow> (Inl e, (?tr, w4))
       | Inr r' \<Rightarrow>
           if status_code r' = 0 then verified_branch env path r d (?tr, w4)
           else unverified_branch env path r d (?tr, w4))"
    using assms
    by (simp add: task_body_def decrypted_branch_def bind_x_def call_def call_quiet_def emit_def
        split: sum.splits)
  show ?thesis
  proof (cases v)
    case (Inl e)
    with body have "task_body env path ([], w) = (Inl e, (?tr, w4))" by simp
    from worker_body_raises [OF this] obtain logs w'
      where run: "process_decrypt_task env path ([], w) =
          (Inr (), (?tr @ Bind_e e # Post (Task_error path) # logs @ [Unbind_e], w'))"
        and logs: "list_all is_log logs" by blast
    have "posts (?tr @ Bind_e e # Post (Task_error path) # logs @ [Unbind_e])
        = [Decrypted path d, verdict path v]"
      unfolding posts_handler [OF logs] pre using Inl by (simp add: verdict_def)
    with run show ?thesis by blast
  next
    case (Inr r')
    show ?thesis
    proof (cases "status_code r' = 0")
      case True
      from verified_branch_run [of env path r d ?tr w4] obtain new w'
        where br: "verified_branch env path r d (?tr, w4) =
            (Inr (), (?tr @ Post Verify_passed # new, w'))"
          and new: "list_all is_log new" by blast
      from body Inr True br have run: "process_decrypt_task env path ([], w) =
          (Inr (), (?tr @ Post Verify_passed # new, w'))"
        by (simp add: process_decrypt_task_def try_except_def)
      have "posts (?tr @ Post Verify_passed # new) = [Decrypted path d, verdict path v]"
        using posts_logs [OF new] Inr True
        by (simp add: posts_append verdict_def) (simp add: posts_def)
      with run show ?thesis by blast
    next
      case False
      from unverified_branch_run [of env path r d ?tr w4] obtain new w'
        where br: "unverified_branch env path r d (?tr, w4) =
            (Inr (), (?tr @ Post Verify_warned # new, w'))"
          and new: "list_all is_log new" by blast
      from body Inr False br have run: "process_decrypt_task env path ([], w) =
          (Inr (), (?tr @ Post Verify_warned # new, w'))"
        by (simp add: process_decrypt_task_def try_except_def)
      have "posts (?tr @ Post Verify_warned # new) = [Decrypted path d, verdict path v]"
        using posts_logs [OF new] Inr False
        by (simp add: posts_append verdict_def) (simp add: posts_def)
      with run show ?thesis by blast
    qed
  qed
qed

section \<open>Properties of the compatibility mode\<close>

lemmas cli_defs = compat_path_def unlock_step_def verify_step_def say_def observe_def
  bind_x_def emit_def call_def call_quiet_def


lemma visited_append: "visited (xs @ ys) = visited xs @ visited ys"
  by (simp add: visited_def List.map_filter_def)








lemma compat_path_missing:
  assumes "path_exists env p w = (False, w1)"
  shows "compat_path env p ([], w) = (Inr (), ([Exists p, Print (Not_found p), Logger Error_level], w1))"
  using assms by (simp add: cli_defs)

lemma compat_path_skips:
  assumes "path_exists env p w = (True, w1)"
    and "check_file_encryption_with_feedback env p w1 = (Inr r, w2)"
    and "status_code r \<noteq> 1"
  shows "compat_path env p ([], w) =
     (Inr (), ([Exists p, Check p, Print (Status_line (status r) p), Logger Info_level,
                Print (if status_code r = 0 then Skip_unencrypted else Skip_unrecognized),
                Logger (if status_code r = 0 then Info_level else Warning_level)], w2))"
  using assms by (simp add: cli_defs)

lemma compat_path_driver_fails:
  assumes "path_exists env p w = (True, w1)"
    and "check_file_encryption_with_feedback env p w1 = (Inr r, w2)"
    and "status_code r = 1"
    and "settings_wps_path env w2 = (Inr g, w3)"
    and "open_and_process_file env p g w3 = (Inr d, w4)"
    and "d = None \<or> d = Some []"
  shows "compat_path env p ([], w) =
     (Inr (), ([Exists p, Check p, Print (Status_line (status r) p), Logger Info_level,
                Print (Trying p), Logger Info_level, Open_and_process p g,
                Print Decrypt_failure, Logger Error_level], w4))"
  using assms by (auto simp: cli_defs)

lemma compat_path_verifies:
  assumes "path_exists env p w = (True, w1)"
    and "check_file_encryption_with_feedback env p w1 = (Inr r, w2)"
    and "status_code r = 1"
    and "settings_wps_path env w2 = (Inr g, w3)"
    and "open_and_process_file env p g w3 = (Inr (Some d), w4)" and "d \<noteq> []"
    and "check_file_encryption_with_feedback env d w4 = (Inr r', w5)"
  shows "compat_path env p ([], w) =
     (Inr (), ([Exists p, Check p, Print (Status_line (status r) p), Logger Info_level,
                Print (Trying p), Logger Info_level, Open_and_process p g,
                Print (Decrypt_success d), Logger Info_level, Check d,
                Print (if status_code r' = 0 then Verify_success else Verify_warning),
                Logger (if status_code r' = 0 then Info_level else Warning_level)], w5))"
  using assms by (simp add: cli_defs)

lemma compat_path_verify_raises:
  assumes "path_exists env p w = (True, w1)"
    and "check_file_encryption_with_feedback env p w1 = (Inr r, w2)"
    and "status_code r = 1"
    and "settings_wps_path env w2 = (Inr g, w3)"
    and "open_and_process_file env p g w3 = (Inr (Some d), w4)" and "d \<noteq> []"
    and "check_file_encryption_with_feedback env d w4 = (Inl e, w5)"
  shows "compat_path env p ([], w) =
     (Inl e, ([Exists p, Check p, Print (Status_line (status r) p), Logger Info_level,
                Print (Trying p), Logger Info_level, Open_and_process p g,
                Print (Decrypt_success d), Logger Info_level, Check d], w5))"
  using assms by (simp add: cli_defs)

lemma compat_path_not_found_iff:
  assumes "compat_path env p ([], w) = (res, (tr, w'))"
  shows "(Print (Not_found q) \<in> set tr) = (q = p \<and> \<not> fst (path_exists env p w))"
  using assms
  by (auto simp: cli_defs split: prod.splits sum.splits option.splits if_splits)

lemma compat_path_driver_only_encrypted:
  assumes "compat_path env p ([], w) = (res, (tr, w'))"
    and "Open_and_process q g \<in> set tr"
  shows "\<exists>w1 r w2. path_exists env p w = (True, w1)
           \<and> check_file_encryption_with_feedback env p w1 = (Inr r, w2) \<and> status_code r = 1"
  using assms
  by (auto simp: cli_defs split: prod.splits sum.splits option.splits if_splits)




section \<open>Properties of enqueueing\<close>

lemma enqueue_files_eq:
  "enqueue_files fs root files q = q @ map (\<lambda>f. (''decrypt'', path_join fs root f)) files"
  by (induction files arbitrary: q) simp_all

lemma enqueue_walk_eq:
  "enqueue_walk fs triples q = q @ map (Pair ''decrypt'') (found_files fs triples)"
proof (induction triples arbitrary: q)
  case Nil
  show ?case by (simp add: found_files_def)
next
  case (Cons t triples)
  obtain root dirs files where t: "t = (root, dirs, files)" by (cases t)
  show ?case
    unfolding t by (simp add: Cons enqueue_files_eq found_files_def comp_def)
qed

lemma length_found_files:
  "length (found_files fs triples) = (\<Sum>(root, dirs, files)\<leftarrow>triples. length files)"
  by (induction triples) (auto simp: found_files_def)

lemma adds_if: "(c \<Longrightarrow> adds a P) \<Longrightarrow> (\<not> c \<Longrightarrow> adds b P) \<Longrightarrow> adds (if c then a else b) P"
  by simp

lemma adds_case_option:
  "adds a P \<Longrightarrow> (\<And>x. adds (f x) P) \<Longrightarrow> adds (case v of None \<Rightarrow> a | Some x \<Rightarrow> f x) P"
  by (cases v) simp_all

lemma adds_lift: "adds (lift r) P"
  by (simp add: adds_def lift_def)

lemma first_event:
  assumes g: "\<And>a. adds (g a) (\<lambda>_. True)" and h: "\<And>e. adds (h e) (\<lambda>_. True)"
  shows "\<exists>rest. fst (snd (try_except (bind_x (call ev f) g) h ([], w))) = ev # rest"
proof -
  obtain r w1 where f: "f w = (r, w1)" by (cases "f w")
  show ?thesis
  proof (cases r)
    case (Inl e)
    from h [of e] obtain new where "fst (snd (h e ([ev], w1))) = [ev] @ new"
      unfolding adds_def by (metis fst_conv)
    with f Inl show ?thesis by (simp add: try_except_def bind_x_def call_def)
  next
    case (Inr a)
    from g [of a] obtain n1 where n1: "fst (snd (g a ([ev], w1))) = [ev] @ n1"
      unfolding adds_def by (metis fst_conv)
    obtain r2 s2 where g2: "g a ([ev], w1) = (r2, s2)" by (cases "g a ([ev], w1)")
    with n1 have s2: "fst s2 = ev # n1" by simp
    show ?thesis
    proof (cases r2)
      case (Inr u)
      with f \<open>r = Inr a\<close> g2 s2 show ?thesis by (simp add: try_except_def bind_x_def call_def)
    next
      case (Inl e)
      from h [of e] obtain n2 where "fst (snd (h e s2)) = fst s2 @ n2"
        unfolding adds_def by blast
      with f \<open>r = Inr a\<close> g2 s2 Inl show ?thesis by (simp add: try_except_def bind_x_def call_def)
    qed
  qed
qed

lemmas adds_rules = adds_bind adds_try adds_emit adds_call adds_call_quiet adds_return adds_if
  adds_case_option adds_lift

lemma worker_first_classifies:
  "\<exists>rest. fst (snd (process_decrypt_task env path ([], w))) = Classify path # rest"
  unfolding process_decrypt_task_def task_body_def
proof (rule first_event)
  fix e
  show "adds (task_handler env path e) (\<lambda>_. True)"
    unfolding task_handler_def log_guarded_def with_logger_def write_log_def
    by (intro adds_rules TrueI)
next
  fix result
  show "adds (if status_code result \<noteq> 1 then skip_branch env path result
       else bind_x (call_quiet (get_wps_path env)) (\<lambda>program_path.
            bind_x (call (Driver path program_path)
                      (process_encrypted_file env path program_path)) (\<lambda>decrypted_path.
            case decrypted_path of
              None \<Rightarrow> failed_branch env path
            | Some d \<Rightarrow>
                if d \<noteq> [] then decrypted_branch env path result d
                else failed_branch env path))) (\<lambda>_. True)"
    unfolding skip_branch_def failed_branch_def decrypted_branch_def verified_branch_def
      unverified_branch_def log_guarded_def with_logger_def write_log_def file_size_of_def
    by (intro adds_rules TrueI)
qed

section \<open>Properties of the dispatch loop\<close>

lemma remove1_keeps:
  assumes "A \<subseteq> fst ` set xs" and "fst x \<notin> A"
  shows "A \<subseteq> fst ` set (remove1 x xs)"
proof
  fix a assume a: "a \<in> A"
  with assms(1) obtain y where y: "y \<in> set xs" "fst y = a" by auto
  with a assms(2) have "y \<noteq> x" by auto
  with y(1) have "y \<in> set (remove1 x xs)" by simp
  with y(2) show "a \<in> fst ` set (remove1 x xs)" by force
qed

lemma pool_inv_init: "pool_inv (init settings)"
  by (simp add: pool_inv_def init_def)

lemma pool_inv_admit: "pool_inv s \<Longrightarrow> loop_guard s \<Longrightarrow> pool_inv (admit s)"
  by (auto simp: pool_inv_def loop_guard_def admit_def split: list.splits)

lemma pool_inv_admit_fails: "pool_inv s \<Longrightarrow> pool_inv (admit_fails s)"
  by (simp add: pool_inv_def admit_fails_def)

lemma pool_inv_clean: "pool_inv s \<Longrightarrow> pool_inv (clean i s)"
proof -
  assume inv: "pool_inv s"
  have "length (remove1 x (thread_pool s)) \<le> length (thread_pool s)" for x
    by (simp add: length_remove1)
  then have "int (length (remove1 x (thread_pool s))) \<le> max 0 (max_threads s)" for x
    using inv unfolding pool_inv_def by (meson le_trans of_nat_mono order_trans zle_int)
  with inv show ?thesis
    by (auto simp: pool_inv_def clean_def Let_def dest: remove1_keeps [THEN subsetD])
qed

lemma pool_inv_step: "step s s' \<Longrightarrow> pool_inv s \<Longrightarrow> pool_inv s'"
proof (induction rule: step.induct)
  case (put s task)
  then show ?case by (simp add: pool_inv_def)
next
  case (finish t s)
  then show ?case by (auto simp: pool_inv_def)
next
  case (tick s)
  then show ?case by (simp add: pool_inv_def)
next
  case (admit s)
  then show ?case by (simp add: pool_inv_admit)
next
  case (admit_fails s)
  then show ?case by (simp add: pool_inv_admit_fails)
next
  case (admitted s)
  then show ?case by (simp add: pool_inv_def)
next
  case (clean s i)
  then show ?case by (simp add: pool_inv_clean)
next
  case (cleaned s i)
  then show ?case by (simp add: pool_inv_def)
qed

lemma max_threads_step: "step s s' \<Longrightarrow> max_threads s' = max_threads s"
  by (induction rule: step.induct)
     (auto simp: admit_def admit_fails_def clean_def Let_def split: list.splits)

lemma reachable_inv:
  "reachable settings s \<Longrightarrow> pool_inv s \<and> max_threads s = max_threads (init settings)"
  by (induction rule: reachable.induct)
     (auto simp: pool_inv_init pool_inv_step max_threads_step)

lemma pool_inv_bound:
  assumes "pool_inv s"
  shows "int (card (alive s)) \<le> max 0 (max_threads s)"
proof -
  from assms(1) have sub: "alive s \<subseteq> fst ` set (thread_pool s)"
    and len: "int (length (thread_pool s)) \<le> max 0 (max_threads s)"
    by (simp_all add: pool_inv_def)
  have "card (alive s) \<le> card (fst ` set (thread_pool s))"
    using sub by (simp add: card_mono)
  also have "\<dots> \<le> card (set (thread_pool s))" by (simp add: card_image_le)
  also have "\<dots> \<le> length (thread_pool s)" by (rule card_length)
  finally have "int (card (alive s)) \<le> int (length (thread_pool s))" by simp
  with len show ?thesis by simp
qed

section \<open>Properties of the update check\<close>

lemma quiet_log_run: "quiet_log env (tr, w) = (Inr (), (tr, snd (log_operation env w)))"
  by (simp add: quiet_log_def try_except_def call_quiet_def return_x_def
      split: prod.splits sum.splits)








lemma update_body_returns:
  assumes "update_body env s = (Inr (), s1)"
  shows "check_for_updates True env s = (Inr (), s1)"
  using assms
  by (simp add: check_for_updates_def check_updates_thread_def try_except_def)

lemma release_step_run:
  "release_step env resp (tr, w) =
     (case json resp of
        Inl e \<Rightarrow> (Inl e, (tr, w))
      | Inr release \<Rightarrow>
          (case tag_name release of
             None \<Rightarrow> (Inl (OtherException ''AttributeError''), (tr, w))
           | Some t \<Rightarrow>
               if 0 < compare_versions (dropWhile (\<lambda>c. c = CHR ''v'') t) current_version
               then
                 (case body release of
                    None \<Rightarrow>
                      (Inl (OtherException ''TypeError''), (tr @ [Set_status msg_new_version], w))
                  | Some notes \<Rightarrow>
                      (Inr (),
                       (tr @ [Set_status msg_new_version,
                              Show (Update_dialog (dropWhile (\<lambda>c. c = CHR ''v'') t)
                                      (take 200 notes) (html_url release))],
                        snd (log_operation env w))))
               else
                 (Inr (), (tr @ [Set_status msg_latest, Show Latest_dialog],
                           snd (log_operation env w)))))"
  by (simp add: release_step_def bind_x_def lift_def emit_def quiet_log_run
      split: sum.splits option.splits)

lemma update_body_reply:
  assumes "http_get env api_url 10 (snd (log_operation env w)) = (Inr resp, w1)"
  shows "update_body env ([], w) =
     (if http_status resp = 200
      then release_step env resp ([Set_status msg_checking, Info_logged, Http_get api_url 10], w1)
      else (Inr (), ([Set_status msg_checking, Info_logged, Http_get api_url 10,
                      Set_status msg_failed, Show (Http_failed_dialog (http_status resp))],
                     snd (log_operation env w1))))"
  using assms
  by (simp add: update_body_def bind_x_def emit_def call_def quiet_log_run)






lemma update_new_version:
  assumes "http_get env api_url 10 (snd (log_operation env w)) = (Inr resp, w1)"
    and "http_status resp = 200" and "json resp = Inr release" and "tag_name release = Some t"
    and "0 < compare_versions (dropWhile (\<lambda>c. c = CHR ''v'') t) current_version"
    and "body release = Some notes"
  shows "check_for_updates True env ([], w) =
     (Inr (), ([Set_status msg_checking, Info_logged, Http_get api_url 10,
                Set_status msg_new_version,
                Show (Update_dialog (dropWhile (\<lambda>c. c = CHR ''v'') t) (take 200 notes)
                        (html_url release))],
               snd (log_operation env w1)))"
proof -
  have "update_body env ([], w) =
     (Inr (), ([Set_status msg_checking, Info_logged, Http_get api_url 10,
                Set_status msg_new_version,
                Show (Update_dialog (dropWhile (\<lambda>c. c = CHR ''v'') t) (take 200 notes)
                        (html_url release))],
               snd (log_operation env w1)))"
    using update_body_reply [OF assms(1)] assms(2-6) by (simp add: release_step_run)
  then show ?thesis by (rule update_body_returns)
qed

lemma update_latest:
  assumes "http_get env api_url 10 (snd (log_operation env w)) = (Inr resp, w1)"
    and "http_status resp = 200" and "json resp = Inr release" and "tag_name release = Some t"
    and "\<not> 0 < compare_versions (dropWhile (\<lambda>c. c = CHR ''v'') t) current_version"
  shows "check_for_updates True env ([], w) =
     (Inr (), ([Set_status msg_checking, Info_logged, Http_get api_url 10,
                Set_status msg_latest, Show Latest_dialog],
               snd (log_operation env w1)))"
proof -
  have "update_body env ([], w) =
     (Inr (), ([Set_status msg_checking, Info_logged, Http_get api_url 10,
                Set_status msg_latest, Show Latest_dialog],
               snd (log_operation env w1)))"
    using update_body_reply [OF assms(1)] assms(2-5) by (simp add: release_step_run)
  then show ?thesis by (rule update_body_returns)
qed




section \<open>The claims\<close>

lemma logs_no_driver: "list_all is_log new \<Longrightarrow> Driver q g \<notin> set new"
  by (auto simp: list_all_iff is_log_def)

lemma worker_skip_posts:
  assumes "get_detection_result env path w = (Inr r, w1)" and "status_code r \<noteq> 1"
  shows "\<exists>tr w'. process_decrypt_task env path ([], w) = (Inr (), (tr, w'))
          \<and> posts tr = [Skipped path (status r)] \<and> \<not> list_ex is_driver tr"
proof -
  from worker_skip [OF assms] obtain new w'
    where run: "process_decrypt_task env path ([], w) =
        (Inr (), ([Classify path, Post (Skipped path (status r))] @ new, w'))"
      and new: "list_all is_log new" by blast
  have "posts ([Classify path, Post (Skipped path (status r))] @ new) = [Skipped path (status r)]"
    using posts_logs [OF new] by (simp add: posts_append) (simp add: posts_def)
  moreover have "\<not> list_ex is_driver ([Classify path, Post (Skipped path (status r))] @ new)"
    using drivers_logs [OF new] by (simp add: is_driver_def)
  ultimately show ?thesis using run by blast
qed

lemma worker_driver_only_encrypted:
  assumes run: "process_decrypt_task env path ([], w) = (res, (tr, w'))"
    and drv: "Driver q g \<in> set tr"
  shows "\<exists>r w1. get_detection_result env path w = (Inr r, w1) \<and> status_code r = 1"
proof -
  obtain v w1 where c: "get_detection_result env path w = (v, w1)"
    by (cases "get_detection_result env path w")
  show ?thesis
  proof (cases v)
    case (Inl e)
    with c have "get_detection_result env path w = (Inl e, w1)" by simp
    from worker_classify_raises [OF this] obtain new w''
      where "process_decrypt_task env path ([], w) =
          (Inr (), ([Classify path, Bind_e e, Post (Task_error path)] @ new @ [Unbind_e], w''))"
        and "list_all is_log new" by blast
    with run drv logs_no_driver [of new q g] show ?thesis by auto
  next
    case (Inr r)
    show ?thesis
    proof (cases "status_code r = 1")
      case True
      with c Inr show ?thesis by simp
    next
      case False
      from c Inr have "get_detection_result env path w = (Inr r, w1)" by simp
      from worker_skip [OF this False] obtain new w''
        where "process_decrypt_task env path ([], w) =
            (Inr (), ([Classify path, Post (Skipped path (status r))] @ new, w''))"
          and "list_all is_log new" by blast
      with run drv logs_no_driver [of new q g] show ?thesis by auto
    qed
  qed
qed

text \<open>
  Claim C2. When the classification of a path has a status code other than 1, the
  worker posts the skip message, returns, and does not call the driver; the driver
  is called only when the status code is 1, in the worker and in the compatibility
  mode of main.py alike.
\<close>

theorem driver_called_only_when_encrypted:
  "(get_detection_result env path w = (Inr r, w1) \<and> status_code r \<noteq> 1 \<longrightarrow>
      (\<exists>tr w'. process_decrypt_task env path ([], w) = (Inr (), (tr, w'))
          \<and> posts tr = [Skipped path (status r)] \<and> \<not> list_ex is_driver tr))
   \<and> (process_decrypt_task env path ([], w) = (res, (tr, w')) \<and> Driver q g \<in> set tr \<longrightarrow>
      (\<exists>r w1. get_detection_result env path w = (Inr r, w1) \<and> status_code r = 1))
   \<and> (compat_path cenv path ([], cw) = (cres, (ctr, cw')) \<and> Open_and_process q g \<in> set ctr \<longrightarrow>
      (\<exists>w1 r w2. path_exists cenv path cw = (True, w1)
          \<and> check_file_encryption_with_feedback cenv path w1 = (Inr r, w2)
          \<and> status_code r = 1))"
proof (intro conjI impI)
  assume "get_detection_result env path w = (Inr r, w1) \<and> status_code r \<noteq> 1"
  then have a: "get_detection_result env path w = (Inr r, w1)" and b: "status_code r \<noteq> 1"
    by blast+
  from worker_skip_posts [OF a b]
  show "\<exists>tr w'. process_decrypt_task env path ([], w) = (Inr (), (tr, w'))
          \<and> posts tr = [Skipped path (status r)] \<and> \<not> list_ex is_driver tr" .
next
  assume "process_decrypt_task env path ([], w) = (res, (tr, w')) \<and> Driver q g \<in> set tr"
  then have a: "process_decrypt_task env path ([], w) = (res, (tr, w'))"
    and b: "Driver q g \<in> set tr" by blast+
  from worker_driver_only_encrypted [OF a b]
  show "\<exists>r w1. get_detection_result env path w = (Inr r, w1) \<and> status_code r = 1" .
next
  assume "compat_path cenv path ([], cw) = (cres, (ctr, cw')) \<and> Open_and_process q g \<in> set ctr"
  then have a: "compat_path cenv path ([], cw) = (cres, (ctr, cw'))"
    and b: "Open_and_process q g \<in> set ctr" by blast+
  from compat_path_driver_only_encrypted [OF a b]
  show "\<exists>w1 r w2. path_exists cenv path cw = (True, w1)
          \<and> check_file_encryption_with_feedback cenv path w1 = (Inr r, w2)
          \<and> status_code r = 1" .
qed

theorem driver_called_only_when_encrypted_witness:
  "(\<exists>tr w'. process_decrypt_task sample_env ''a.txt'' ([], 0) = (Inr (), (tr, w'))
       \<and> posts tr = [Skipped ''a.txt'' ''plain''] \<and> \<not> list_ex is_driver tr)
   \<and> Driver ''a.enc'' (Some ''wps.exe'')
       \<in> set (fst (snd (process_decrypt_task sample_env ''a.enc'' ([], 0))))
   \<and> (\<exists>r w1. get_detection_result sample_env ''a.enc'' 0 = (Inr r, w1) \<and> status_code r = 1)
   \<and> Open_and_process ''a.enc'' (Some ''wps.exe'')
       \<in> set (fst (snd (compat_path sample_cli ''a.enc'' ([], 0))))
   \<and> (\<exists>w1 r w2. path_exists sample_cli ''a.enc'' 0 = (True, w1)
          \<and> check_file_encryption_with_feedback sample_cli ''a.enc'' w1 = (Inr r, w2)
          \<and> status_code r = 1)"
proof -
  have skip: "get_detection_result sample_env ''a.txt'' 0 = (Inr (sample_detection ''a.txt''), 0)
      \<and> status_code (sample_detection ''a.txt'') \<noteq> 1"
    by (simp add: sample_env_def sample_detection_def)
  have st: "status (sample_detection ''a.txt'') = ''plain''"
    by (simp add: sample_detection_def)
  obtain res tr w' where run: "process_decrypt_task sample_env ''a.enc'' ([], 0) = (res, (tr, w'))"
    by (metis surj_pair)
  have drv: "Driver ''a.enc'' (Some ''wps.exe'') \<in> set tr"
    using run
    by (simp add: process_decrypt_task_def task_body_def try_except_def bind_x_def call_def
        call_quiet_def sample_env_def sample_detection_def) (auto simp: decrypted_branch_def
        verified_branch_def bind_x_def emit_def call_def log_guarded_def try_except_def
        file_size_of_def call_quiet_def return_x_def write_log_def with_logger_def
        sample_detection_def)
  obtain cres ctr cw' where crun: "compat_path sample_cli ''a.enc'' ([], 0) = (cres, (ctr, cw'))"
    by (metis surj_pair)
  have cdrv: "Open_and_process ''a.enc'' (Some ''wps.exe'') \<in> set ctr"
    using crun by (auto simp: cli_defs sample_cli_def sample_detection_def)
  show ?thesis
    using driver_called_only_when_encrypted [of sample_env "''a.txt''" 0
        "sample_detection ''a.txt''" 0 res tr w' "''a.enc''" "Some ''wps.exe''" sample_cli 0 cres
        ctr cw']
      driver_called_only_when_encrypted [of sample_env "''a.enc''" 0
        "sample_detection ''a.txt''" 0 res tr w' "''a.enc''" "Some ''wps.exe''" sample_cli 0 cres
        ctr cw']
      skip st run drv crun cdrv
    by simp
qed

lemma worker_verification:
  assumes "get_detection_result env path w = (Inr r, w1)" and "status_code r = 1"
    and "get_wps_path env w1 = (Inr prog, w2)"
    and "process_encrypted_file env path prog w2 = (Inr (Some d), w3)" and "d \<noteq> []"
    and "get_detection_result env d w3 = (v, w4)"
  shows "\<exists>tr w'. process_decrypt_task env path ([], w) = (Inr (), (tr, w'))
          \<and> posts tr = [Decrypted path d, verdict path v]"
  by (rule worker_verifies [OF assms])

lemma verdict_passed:
  "(Verify_passed \<in> set [Decrypted path d, verdict path v]) = (\<exists>r'. v = Inr r' \<and> status_code r' = 0)"
  by (cases v) (auto simp: verdict_def)

lemma verdict_warned:
  "(Verify_warned \<in> set [Decrypted path d, verdict path v]) = (\<exists>r'. v = Inr r' \<and> status_code r' \<noteq> 0)"
  by (cases v) (auto simp: verdict_def)

lemma cli_verification:
  assumes "path_exists env p w = (True, w1)"
    and "check_file_encryption_with_feedback env p w1 = (Inr r, w2)"
    and "status_code r = 1"
    and "settings_wps_path env w2 = (Inr g, w3)"
    and "open_and_process_file env p g w3 = (Inr (Some d), w4)" and "d \<noteq> []"
    and "check_file_encryption_with_feedback env d w4 = (v, w5)"
  shows "\<exists>res tr w'. compat_path env p ([], w) = (res, (tr, w'))
          \<and> (Print Verify_success \<in> set tr) = (\<exists>r'. v = Inr r' \<and> status_code r' = 0)
          \<and> (Print Verify_warning \<in> set tr) = (\<exists>r'. v = Inr r' \<and> status_code r' \<noteq> 0)"
proof (cases v)
  case (Inl e)
  with assms(7) have "check_file_encryption_with_feedback env d w4 = (Inl e, w5)" by simp
  from compat_path_verify_raises [OF assms(1-6) this] Inl show ?thesis by simp
next
  case (Inr r')
  with assms(7) have "check_file_encryption_with_feedback env d w4 = (Inr r', w5)" by simp
  from compat_path_verifies [OF assms(1-6) this] Inr show ?thesis by simp
qed

text \<open>
  Claim C3. Once the driver has produced a path, the success of the verification is
  reported exactly when classifying that path again gives status code 0; every other
  classification, the unrecognized one included, gives the warning and no success
  report. This holds in the worker and in the compatibility mode of main.py.
\<close>

theorem verification_passes_iff_unencrypted:
  "(get_detection_result env path w = (Inr r, w1) \<and> status_code r = 1
      \<and> get_wps_path env w1 = (Inr prog, w2)
      \<and> process_encrypted_file env path prog w2 = (Inr (Some d), w3) \<and> d \<noteq> []
      \<and> get_detection_result env d w3 = (v, w4) \<longrightarrow>
      (\<exists>tr w'. process_decrypt_task env path ([], w) = (Inr (), (tr, w'))
          \<and> (Verify_passed \<in> set (posts tr)) = (\<exists>r'. v = Inr r' \<and> status_code r' = 0)
          \<and> (Verify_warned \<in> set (posts tr)) = (\<exists>r'. v = Inr r' \<and> status_code r' \<noteq> 0)))
   \<and> (path_exists cenv path cw = (True, c1)
      \<and> check_file_encryption_with_feedback cenv path c1 = (Inr cr, c2) \<and> status_code cr = 1
      \<and> settings_wps_path cenv c2 = (Inr cprog, c3)
      \<and> open_and_process_file cenv path cprog c3 = (Inr (Some cd), c4) \<and> cd \<noteq> []
      \<and> check_file_encryption_with_feedback cenv cd c4 = (cv, c5) \<longrightarrow>
      (\<exists>res tr w'. compat_path cenv path ([], cw) = (res, (tr, w'))
          \<and> (Print Verify_success \<in> set tr) = (\<exists>r'. cv = Inr r' \<and> status_code r' = 0)
          \<and> (Print Verify_warning \<in> set tr) = (\<exists>r'. cv = Inr r' \<and> status_code r' \<noteq> 0)))"
proof (intro conjI impI)
  assume "get_detection_result env path w = (Inr r, w1) \<and> status_code r = 1
      \<and> get_wps_path env w1 = (Inr prog, w2)
      \<and> process_encrypted_file env path prog w2 = (Inr (Some d), w3) \<and> d \<noteq> []
      \<and> get_detection_result env d w3 = (v, w4)"
  then have h: "get_detection_result env path w = (Inr r, w1)" "status_code r = 1"
      "get_wps_path env w1 = (Inr prog, w2)"
      "process_encrypted_file env path prog w2 = (Inr (Some d), w3)" "d \<noteq> []"
      "get_detection_result env d w3 = (v, w4)"
    by blast+
  from worker_verification [OF h] obtain tr w'
    where "process_decrypt_task env path ([], w) = (Inr (), (tr, w'))"
      and "posts tr = [Decrypted path d, verdict path v]" by blast
  then show "\<exists>tr w'. process_decrypt_task env path ([], w) = (Inr (), (tr, w'))
          \<and> (Verify_passed \<in> set (posts tr)) = (\<exists>r'. v = Inr r' \<and> status_code r' = 0)
          \<and> (Verify_warned \<in> set (posts tr)) = (\<exists>r'. v = Inr r' \<and> status_code r' \<noteq> 0)"
    using verdict_passed [of path d v] verdict_warned [of path d v] by simp
next
  assume "path_exists cenv path cw = (True, c1)
      \<and> check_file_encryption_with_feedback cenv path c1 = (Inr cr, c2) \<and> status_code cr = 1
      \<and> settings_wps_path cenv c2 = (Inr cprog, c3)
      \<and> open_and_process_file cenv path cprog c3 = (Inr (Some cd), c4) \<and> cd \<noteq> []
      \<and> check_file_encryption_with_feedback cenv cd c4 = (cv, c5)"
  then have h: "path_exists cenv path cw = (True, c1)"
      "check_file_encryption_with_feedback cenv path c1 = (Inr cr, c2)" "status_code cr = 1"
      "settings_wps_path cenv c2 = (Inr cprog, c3)"
      "open_and_process_file cenv path cprog c3 = (Inr (Some cd), c4)" "cd \<noteq> []"
      "check_file_encryption_with_feedback cenv cd c4 = (cv, c5)"
    by blast+
  from cli_verification [OF h]
  show "\<exists>res tr w'. compat_path cenv path ([], cw) = (res, (tr, w'))
          \<and> (Print Verify_success \<in> set tr) = (\<exists>r'. cv = Inr r' \<and> status_code r' = 0)
          \<and> (Print Verify_warning \<in> set tr) = (\<exists>r'. cv = Inr r' \<and> status_code r' \<noteq> 0)" .
qed

theorem verification_passes_iff_unencrypted_witness:
  "(\<exists>tr w'. process_decrypt_task sample_env ''a.enc'' ([], 0) = (Inr (), (tr, w'))
       \<and> Verify_passed \<in> set (posts tr) \<and> Verify_warned \<notin> set (posts tr))
   \<and> (\<exists>res tr w'. compat_path sample_cli ''b.enc'' ([], 0) = (res, (tr, w'))
       \<and> Print Verify_success \<notin> set tr \<and> Print Verify_warning \<in> set tr)"
proof
  show "\<exists>tr w'. process_decrypt_task sample_env ''a.enc'' ([], 0) = (Inr (), (tr, w'))
       \<and> Verify_passed \<in> set (posts tr) \<and> Verify_warned \<notin> set (posts tr)"
    using verification_passes_iff_unencrypted [where env = sample_env and path = "''a.enc''"
        and w = 0 and r = "sample_detection ''a.enc''" and ?w1.0 = 0
        and prog = "Some ''wps.exe''" and ?w2.0 = 0 and d = "''a.enc.out''" and ?w3.0 = 1
        and v = "Inr (sample_detection ''a.enc.out'')" and ?w4.0 = 1, THEN conjunct1]
    by (simp add: sample_env_def sample_detection_def)
  show "\<exists>res tr w'. compat_path sample_cli ''b.enc'' ([], 0) = (res, (tr, w'))
       \<and> Print Verify_success \<notin> set tr \<and> Print Verify_warning \<in> set tr"
    using verification_passes_iff_unencrypted [where cenv = sample_cli and path = "''b.enc''"
        and cw = 0 and cr = "sample_detection ''b.enc''" and ?c1.0 = 0
        and cprog = "Some ''wps.exe''" and ?c2.0 = 0 and ?c3.0 = 0 and cd = "''b.enc.out''"
        and ?c4.0 = 1 and cv = "Inr (sample_detection ''b.enc.out'')" and ?c5.0 = 1,
        THEN conjunct2]
    by (simp add: sample_cli_def sample_detection_def)
qed

lemma cell_e_unbound: "cell_e (tr @ [Unbind_e]) = None"
  by (simp add: cell_e_def cell_step_def)

lemma worker_error_report_unbound:
  assumes "get_detection_result env path w = (Inl e, w1)"
  shows "\<exists>tr w'. process_decrypt_task env path ([], w) = (Inr (), (tr, w'))
          \<and> posts tr = [Task_error path] \<and> cell_e tr = None
          \<and> delivered tr = [Inl (OtherException ''NameError'')]"
proof -
  from worker_classify_raises [OF assms] obtain logs w'
    where run: "process_decrypt_task env path ([], w) =
        (Inr (), ([Classify path, Bind_e e, Post (Task_error path)] @ logs @ [Unbind_e], w'))"
      and logs: "list_all is_log logs" by blast
  let ?tr = "[Classify path, Bind_e e, Post (Task_error path)] @ logs @ [Unbind_e]"
  have p: "posts ?tr = [Task_error path]"
    using posts_handler [OF logs, of "[Classify path]" e path] by (simp add: posts_def)
  have c: "cell_e ?tr = None"
    using cell_e_unbound [of "[Classify path, Bind_e e, Post (Task_error path)] @ logs"] by simp
  have "delivered ?tr = [Inl (OtherException ''NameError'')]"
    unfolding delivered_def p c by (simp add: run_callback_def)
  with run p c show ?thesis by blast
qed

text \<open>
  Claim C6. The worker catches the exception of its \<open>try\<close> block and returns; the
  error report it schedules is not delivered. For a path whose classification raises,
  \<open>process_decrypt_task\<close> returns, and the only message it has scheduled is the error
  report of line 553; but the handler's variable \<open>e\<close> is unbound once the \<open>except\<close>
  clause has ended, so the callback, run after the worker, raises \<open>NameError\<close> and
  adds nothing to the results.
\<close>

theorem error_report_finds_e_unbound:
  "\<exists>tr w'. process_decrypt_task failing_env ''a.enc'' ([], 0) = (Inr (), (tr, w'))
     \<and> posts tr = [Task_error ''a.enc''] \<and> cell_e tr = None
     \<and> delivered tr = [Inl (OtherException ''NameError'')]"
  using worker_error_report_unbound [of failing_env "''a.enc''" 0
      "OtherException ''unreadable''" 0]
  by (simp add: failing_env_def sample_env_def)



text \<open>
  Claim C10. In the compatibility mode the report of a path that was not found comes
  only from the existence check. A path that passes the check and is classified with
  a status code other than 0 and 1, the code -1 of an unreadable file included, goes
  through the last branch and is reported as unrecognized and skipped.
\<close>

theorem not_found_only_from_existence_check:
  "(path_exists env p w = (True, w1)
      \<and> check_file_encryption_with_feedback env p w1 = (Inr r, w2)
      \<and> status_code r \<noteq> 0 \<and> status_code r \<noteq> 1 \<longrightarrow>
      compat_path env p ([], w) =
        (Inr (), ([Exists p, Check p, Print (Status_line (status r) p), Logger Info_level,
                   Print Skip_unrecognized, Logger Warning_level], w2)))
   \<and> (compat_path env p ([], w) = (res, (tr, w')) \<longrightarrow>
      (Print (Not_found q) \<in> set tr) = (q = p \<and> \<not> fst (path_exists env p w)))"
proof (intro conjI impI)
  assume "path_exists env p w = (True, w1)
      \<and> check_file_encryption_with_feedback env p w1 = (Inr r, w2)
      \<and> status_code r \<noteq> 0 \<and> status_code r \<noteq> 1"
  then have h: "path_exists env p w = (True, w1)"
      "check_file_encryption_with_feedback env p w1 = (Inr r, w2)" "status_code r \<noteq> 1"
    and z: "status_code r \<noteq> 0"
    by blast+
  from compat_path_skips [OF h] z
  show "compat_path env p ([], w) =
        (Inr (), ([Exists p, Check p, Print (Status_line (status r) p), Logger Info_level,
                   Print Skip_unrecognized, Logger Warning_level], w2))" by simp
next
  assume "compat_path env p ([], w) = (res, (tr, w'))"
  from compat_path_not_found_iff [OF this]
  show "(Print (Not_found q) \<in> set tr) = (q = p \<and> \<not> fst (path_exists env p w))" .
qed

theorem not_found_only_from_existence_check_witness:
  "compat_path sample_cli ''a.lock'' ([], 0) =
     (Inr (), ([Exists ''a.lock'', Check ''a.lock'', Print (Status_line ''missing'' ''a.lock''),
                Logger Info_level, Print Skip_unrecognized, Logger Warning_level], 0))
   \<and> Print (Not_found ''a.lock'') \<notin> set [Exists ''a.lock'', Check ''a.lock'',
        Print (Status_line ''missing'' ''a.lock''), Logger Info_level, Print Skip_unrecognized,
        Logger Warning_level]
   \<and> status_code (sample_detection ''a.lock'') = - 1"
proof -
  have run: "compat_path sample_cli ''a.lock'' ([], 0) =
     (Inr (), ([Exists ''a.lock'', Check ''a.lock'', Print (Status_line ''missing'' ''a.lock''),
                Logger Info_level, Print Skip_unrecognized, Logger Warning_level], 0))"
    using not_found_only_from_existence_check [where env = sample_cli and p = "''a.lock''"
        and w = 0 and ?w1.0 = 0 and r = "sample_detection ''a.lock''" and ?w2.0 = 0]
    by (simp add: sample_cli_def sample_detection_def)
  then show ?thesis
    using not_found_only_from_existence_check [where env = sample_cli and p = "''a.lock''"
        and w = 0 and q = "''a.lock''" and res = "Inr ()" and w' = 0
        and tr = "[Exists ''a.lock'', Check ''a.lock'', Print (Status_line ''missing'' ''a.lock''),
                Logger Info_level, Print Skip_unrecognized, Logger Warning_level]"]
    by (simp add: sample_detection_def)
qed

text \<open>
  Claim C5. For a directory, \<open>decrypt_file\<close> puts exactly one \<open>decrypt\<close> task on the
  queue for each file the traversal lists, in order, whatever the file is: it reads
  nothing but the traversal. The classification comes later: it is the first thing
  the worker does with the path of its task.
\<close>

theorem one_task_per_file_found:
  assumes "path \<noteq> []" and "isdir fs path"
  shows "snd (decrypt_file fs path q) = q @ map (Pair ''decrypt'') (found_files fs (walk fs path))
         \<and> length (snd (decrypt_file fs path q)) =
             length q + (\<Sum>(root, dirs, files)\<leftarrow>walk fs path. length files)
         \<and> (\<exists>rest. fst (snd (process_decrypt_task env p ([], w))) = Classify p # rest)"
  using assms worker_first_classifies [of env p w]
  by (simp add: decrypt_file_def enqueue_walk_eq length_found_files)

theorem one_task_per_file_found_witness:
  "''docs'' \<noteq> [] \<and> isdir sample_fs ''docs''
   \<and> snd (decrypt_file sample_fs ''docs'' []) =
       [(''decrypt'', ''docs/a.enc''), (''decrypt'', ''docs/a.txt''), (''decrypt'', ''docs/sub/c.bin'')]
   \<and> length (snd (decrypt_file sample_fs ''docs'' [])) = 3"
proof -
  have d: "isdir sample_fs ''docs''" by (simp add: sample_fs_def)
  have n: "''docs'' \<noteq> []" by simp
  from one_task_per_file_found [OF n d, of "[]" sample_env "''a.enc''" 0] d show ?thesis
    by (simp add: found_files_def sample_fs_def)
qed

text \<open>
  Claim C1. In every state the dispatch loop can reach, with any queue, between
  ticks and within a tick, the number of worker threads that were started and have
  not ended is at most \<open>max_threads\<close>, for every bound that is not negative (with a
  negative setting no worker is ever started); \<open>max_threads\<close> is the configured value
  and is 5 when the settings hold none.
\<close>

theorem live_workers_at_most_max_threads:
  assumes "reachable settings s"
  shows "int (card (alive s)) \<le> max 0 (max_threads s)
         \<and> (0 \<le> max_threads s \<longrightarrow> int (card (alive s)) \<le> max_threads s)
         \<and> max_threads s = (case settings ''max_threads'' of None \<Rightarrow> 5 | Some v \<Rightarrow> v)"
proof -
  from reachable_inv [OF assms]
  have inv: "pool_inv s" and m: "max_threads s = max_threads (init settings)" by simp_all
  have b: "int (card (alive s)) \<le> max 0 (max_threads s)" by (rule pool_inv_bound [OF inv])
  then have "0 \<le> max_threads s \<longrightarrow> int (card (alive s)) \<le> max_threads s"
    by (auto simp: max_def split: if_splits)
  with b m show ?thesis by (simp add: init_def)
qed

theorem live_workers_at_most_max_threads_witness:
  "reachable Map.empty one_worker \<and> 0 \<le> max_threads one_worker
   \<and> card (alive one_worker) = 1 \<and> int (card (alive one_worker)) \<le> max_threads one_worker
   \<and> max_threads one_worker = 5"
proof -
  let ?s0 = "init Map.empty"
  let ?s1 = "?s0\<lparr>task_queue := task_queue ?s0 @ [(''decrypt'', ''a.enc'')]\<rparr>"
  let ?s2 = "?s1\<lparr>at := Admitting\<rparr>"
  have r0: "reachable Map.empty ?s0" by (rule reachable.initial)
  have r1: "reachable Map.empty ?s1" by (rule reachable.later [OF r0 step.put])
  have "step ?s1 ?s2" by (rule step.tick) (simp add: init_def)
  with r1 have r2: "reachable Map.empty ?s2" by (rule reachable.later)
  have "step ?s2 (admit ?s2)" by (rule step.admit) (simp_all add: init_def loop_guard_def)
  with r2 have "reachable Map.empty (admit ?s2)" by (rule reachable.later)
  moreover have "admit ?s2 = one_worker" by (simp add: admit_def init_def one_worker_def)
  ultimately have r: "reachable Map.empty one_worker" by simp
  from live_workers_at_most_max_threads [OF r] r show ?thesis
    by (simp add: one_worker_def)
qed




end
